theory Spec2Isabelle
  imports Main "HOL-Library.AList"
begin

section \<open>Python values, exceptions and results\<close>

text \<open>
  The script \<^verbatim>\<open>scripts/download_surahs.py\<close> is embedded function by function.
  Exceptions are values: an exception carries its class and the text that
  \<^verbatim>\<open>str(exc)\<close> renders. Only subclasses of \<^verbatim>\<open>Exception\<close> are modelled (no
  \<^verbatim>\<open>KeyboardInterrupt\<close> or \<^verbatim>\<open>SystemExit\<close>). A class is the list of its own name and
  the names of its base classes below \<^verbatim>\<open>Exception\<close>, so that an \<^verbatim>\<open>except\<close> clause, as in
  Python, also catches the subclasses of the class it names.
\<close>

type_synonym exn_class = "string list"

datatype exn = Exn (cls: exn_class) (msg: string)

definition isinstance :: "exn \<Rightarrow> string \<Rightarrow> bool" where
  "isinstance e name = (name \<in> set (cls e))"

definition RuntimeError :: exn_class where
  "RuntimeError = [''RuntimeError'']"

definition URLError :: exn_class where
  "URLError = [''URLError'', ''OSError'']"

definition HTTPError :: exn_class where
  "HTTPError = [''HTTPError'', ''URLError'', ''OSError'']"

definition ConnectionResetError :: exn_class where
  "ConnectionResetError = [''ConnectionResetError'', ''ConnectionError'', ''OSError'']"

definition KeyError :: exn_class where
  "KeyError = [''KeyError'', ''LookupError'']"

definition TypeError :: exn_class where
  "TypeError = [''TypeError'']"

definition ValueError :: exn_class where
  "ValueError = [''ValueError'']"

datatype 'a result = Raised exn | Returned 'a

type_synonym bytes = string
type_synonym path = string

section \<open>Module constants\<close>

definition RECITER_PAGE :: string where
  "RECITER_PAGE = ''https://quranicaudio.com/quran/5''"

definition RETRY_LIMIT :: nat where
  "RETRY_LIMIT = 3"

definition CHUNK_SIZE :: nat where
  "CHUNK_SIZE = 2 ^ 15"

text \<open>
  \<^verbatim>\<open>ROOT\<close> is the parent of the directory of the script; paths are written
  relative to it. \<^verbatim>\<open>AUDIO_DIR / filename\<close> is the pathlib join: an absolute
  right operand replaces the left one.
\<close>

definition SURAH_LIST :: path where
  "SURAH_LIST = ''QuranMenubar/Sources/SurahList.json''"

definition AUDIO_DIR :: path where
  "AUDIO_DIR = ''QuranMenubar/Resources/Audio''"

definition path_join :: "path \<Rightarrow> string \<Rightarrow> path" where
  "path_join d f = (case f of [] \<Rightarrow> d
                    | c # cs \<Rightarrow> if c = CHR ''/'' then f else d @ ''/'' @ f)"

section \<open>Rendering integers in f-strings\<close>

fun digit_char :: "nat \<Rightarrow> char" where
  "digit_char n = char_of (48 + n mod 10)"

function str_nat :: "nat \<Rightarrow> string" where
  "str_nat n = (if n < 10 then [digit_char n] else str_nat (n div 10) @ [digit_char n])"
  by pat_completeness auto
termination
  by (relation "measure id") auto

declare str_nat.simps [simp del]

text \<open>\<^verbatim>\<open>{number:03d}\<close>: the sign counts in the width, zeros go after the sign.\<close>

definition fmt_03d :: "int \<Rightarrow> string" where
  "fmt_03d i =
     (let s = (if i < 0 then ''-'' else ''''); ds = str_nat (nat \<bar>i\<bar>)
      in s @ replicate (3 - (length s + length ds)) CHR ''0'' @ ds)"

section \<open>The pattern of \<^verbatim>\<open>discover_urls\<close>\<close>

text \<open>
  \<^verbatim>\<open>https://[^\"']+?/([0-9]{3})\.mp3\<close>, as \<^verbatim>\<open>re\<close> runs it. \<open>match_tail\<close> is the part
  after the lazy class: a slash, three ASCII digits, \<^verbatim>\<open>.mp3\<close>; it returns the three
  digits and the text left after the match.
\<close>

definition is_digit :: "char \<Rightarrow> bool" where
  "is_digit c = (48 \<le> (of_char c :: nat) \<and> (of_char c :: nat) \<le> 57)"

definition is_quote :: "char \<Rightarrow> bool" where
  "is_quote c = (c = CHR 0x22 \<or> c = CHR 0x27)"

fun match_tail :: "string \<Rightarrow> (string \<times> string) option" where
  "match_tail (s # a # b # c # d # m # p # t # rest) =
     (if s = CHR ''/'' \<and> is_digit a \<and> is_digit b \<and> is_digit c \<and> d = CHR ''.''
         \<and> m = CHR ''m'' \<and> p = CHR ''p'' \<and> t = CHR ''3''
      then Some ([a, b, c], rest) else None)"
| "match_tail _ = None"

text \<open>
  The lazy \<^verbatim>\<open>[^\"']+?\<close> has consumed \<open>acc\<close> (at least one character): try the tail
  here first, and only when it fails take one more character of the class.
\<close>

fun match_lazy :: "string \<Rightarrow> string \<Rightarrow> (string \<times> string \<times> string) option" where
  "match_lazy acc s =
     (case match_tail s of
        Some (ds, rest) \<Rightarrow> Some (acc, ds, rest)
      | None \<Rightarrow>
          (case s of
             [] \<Rightarrow> None
           | c # cs \<Rightarrow> if is_quote c then None else match_lazy (acc @ [c]) cs))"


text \<open>
  One attempt of the pattern at the start of \<open>s\<close>: the literal \<^verbatim>\<open>https://\<close>, one
  character of the class, then the lazy rest. The result is \<^verbatim>\<open>group(0)\<close>,
  \<^verbatim>\<open>group(1)\<close> and the text after the match.
\<close>

fun strip_prefix :: "string \<Rightarrow> string \<Rightarrow> string option" where
  "strip_prefix [] s = Some s"
| "strip_prefix (p # ps) [] = None"
| "strip_prefix (p # ps) (c # cs) = (if p = c then strip_prefix ps cs else None)"

definition match_at :: "string \<Rightarrow> (string \<times> string \<times> string) option" where
  "match_at s =
     (case strip_prefix ''https://'' s of
        None \<Rightarrow> None
      | Some t \<Rightarrow>
          (case t of
             [] \<Rightarrow> None
           | c # cs \<Rightarrow>
               if is_quote c then None
               else (case match_lazy [c] cs of
                       None \<Rightarrow> None
                     | Some (acc, ds, rest) \<Rightarrow>
                         Some (''https://'' @ acc @ ''/'' @ ds @ ''.mp3'', ds, rest))))"

lemma match_tail_length:
  "match_tail s = Some (ds, rest) \<Longrightarrow> length s = length rest + 8 \<and> s = ''/'' @ ds @ ''.mp3'' @ rest"
  by (induction s rule: match_tail.induct) (auto split: if_splits)

lemma match_lazy_shape:
  "match_lazy acc s = Some (acc', ds, rest) \<Longrightarrow>
     acc @ s = acc' @ ''/'' @ ds @ ''.mp3'' @ rest \<and> length rest < length s
     \<and> length acc \<le> length acc'"
proof (induction acc s rule: match_lazy.induct)
  case (1 acc s)
  show ?case
  proof (cases "match_tail s")
    case (Some p)
    obtain ds' rest' where p: "p = (ds', rest')" by (cases p)
    from "1.prems" Some p have eq: "acc' = acc" "ds' = ds" "rest' = rest"
      by simp_all
    from match_tail_length [of s ds rest] Some p eq show ?thesis
      by simp
  next
    case None
    with "1.prems" obtain c cs where s: "s = c # cs" and nq: "\<not> is_quote c"
      and rec: "match_lazy (acc @ [c]) cs = Some (acc', ds, rest)"
      by (cases s) (auto split: if_splits)
    from "1.IH" [OF None s nq rec] s show ?thesis
      by simp
  qed
qed

lemma strip_prefix_Some: "strip_prefix p s = Some t \<Longrightarrow> s = p @ t"
  by (induction p s rule: strip_prefix.induct) (auto split: if_splits)

lemma match_at_shape:
  assumes "match_at s = Some (url, ds, rest)"
  shows "s = url @ rest" and "length rest < length s"
    and "\<exists>acc. acc \<noteq> [] \<and> url = ''https://'' @ acc @ ''/'' @ ds @ ''.mp3''"
proof -
  from assms obtain t where t: "strip_prefix ''https://'' s = Some t"
    by (auto simp: match_at_def split: option.splits)
  from assms t obtain c cs where tc: "t = c # cs"
    by (cases t) (auto simp: match_at_def)
  from assms t tc obtain acc where
    lz: "match_lazy [c] cs = Some (acc, ds, rest)"
    and url: "url = ''https://'' @ acc @ ''/'' @ ds @ ''.mp3''"
    by (auto simp: match_at_def split: if_splits option.splits)
  from match_lazy_shape [OF lz]
  have sh: "[c] @ cs = acc @ ''/'' @ ds @ ''.mp3'' @ rest" and ln: "length rest < length cs"
    and ne: "length [c] \<le> length acc"
    by blast+
  from strip_prefix_Some [OF t] tc have s: "s = ''https://'' @ c # cs" by simp
  from s sh url show "s = url @ rest" by simp
  from s ln show "length rest < length s" by simp
  from ne url show "\<exists>acc. acc \<noteq> [] \<and> url = ''https://'' @ acc @ ''/'' @ ds @ ''.mp3''"
    by (intro exI [of _ acc]) auto
qed

text \<open>
  \<^verbatim>\<open>pattern.finditer(html)\<close>: the matches from left to right, no two overlapping, each
  as the pair of \<^verbatim>\<open>group(0)\<close> and \<^verbatim>\<open>group(1)\<close>. After a match the scan goes on
  where the match ended; where no match starts, one character further.
\<close>

function finditer :: "string \<Rightarrow> (string \<times> string) list" where
  "finditer s =
     (case s of
        [] \<Rightarrow> []
      | c # cs \<Rightarrow>
          (case match_at s of
             Some (url, ds, rest) \<Rightarrow> (url, ds) # finditer rest
           | None \<Rightarrow> finditer cs))"
  by pat_completeness auto
termination
  by (relation "measure length") (auto dest: match_at_shape(2))

declare finditer.simps [simp del]

text \<open>\<^verbatim>\<open>int(match.group(1))\<close> on a string of ASCII digits.\<close>

definition int_of_digits :: "string \<Rightarrow> int" where
  "int_of_digits ds = foldl (\<lambda>n c. 10 * n + (int (of_char c) - 48)) 0 ds"

text \<open>
  Lines 75 to 79 of \<^verbatim>\<open>discover_urls\<close>: the dictionary \<open>urls\<close> is an association
  list in insertion order; \<^verbatim>\<open>urls[num] = ...\<close> replaces the value of a key that is
  present and appends a new key otherwise.
\<close>

definition extract_urls :: "string \<Rightarrow> (int \<times> string) list" where
  "extract_urls html =
     foldl (\<lambda>urls (url, ds). AList.update (int_of_digits ds) url urls) [] (finditer html)"

section \<open>\<^verbatim>\<open>request.Request\<close>\<close>

text \<open>
  Building the request object parses the URL and raises \<^verbatim>\<open>ValueError\<close> when it finds no
  scheme: \<^verbatim>\<open>Request.full_url\<close> unwraps the string (\<^verbatim>\<open>urllib.parse.unwrap\<close>), splits the
  fragment off at the last \<^verbatim>\<open>#\<close>, and \<^verbatim>\<open>_parse\<close> wants the rest to begin with one or
  more characters other than \<^verbatim>\<open>/\<close> and \<^verbatim>\<open>:\<close> followed by a colon. \<open>is_space\<close> is
  the ASCII white space that \<^verbatim>\<open>str.strip\<close> removes; \<open>py_repr\<close> is \<^verbatim>\<open>repr\<close> for text
  without quotes, backslashes and control characters, used in the message only. The
  request object itself stands for its URL, so only the exception is kept.
\<close>

definition is_space :: "char \<Rightarrow> bool" where
  "is_space c = ((9 \<le> (of_char c :: nat) \<and> (of_char c :: nat) \<le> 13)
                 \<or> (28 \<le> (of_char c :: nat) \<and> (of_char c :: nat) \<le> 32))"

definition py_strip :: "string \<Rightarrow> string" where
  "py_strip s = rev (dropWhile is_space (rev (dropWhile is_space s)))"

definition unwrap :: "string \<Rightarrow> string" where
  "unwrap url =
     (let u = py_strip url;
          u = (if take 1 u = ''<'' \<and> take 1 (rev u) = ''>'' then py_strip (butlast (tl u)) else u)
      in if take 4 u = ''URL:'' then py_strip (drop 4 u) else u)"

definition splittag :: "string \<Rightarrow> string \<times> string option" where
  "splittag url =
     (if CHR ''#'' \<in> set url
      then (rev (tl (dropWhile (\<lambda>c. c \<noteq> CHR ''#'') (rev url))),
            Some (rev (takeWhile (\<lambda>c. c \<noteq> CHR ''#'') (rev url))))
      else (url, None))"

definition splittype :: "string \<Rightarrow> string option" where
  "splittype url =
     (let scheme = takeWhile (\<lambda>c. c \<noteq> CHR ''/'' \<and> c \<noteq> CHR '':'') url
      in if scheme \<noteq> [] \<and> take 1 (drop (length scheme) url) = '':''
         then Some scheme else None)"

definition py_repr :: "string \<Rightarrow> string" where
  "py_repr s = [CHR 0x27] @ s @ [CHR 0x27]"

definition Request :: "string \<Rightarrow> unit result" where
  "Request url =
     (case splittag (unwrap url) of
        (full_url, fragment) \<Rightarrow>
          (case splittype full_url of
             None \<Rightarrow>
               Raised (Exn ValueError
                 (''unknown url type: ''
                  @ py_repr (case fragment of
                               None \<Rightarrow> full_url
                             | Some tag \<Rightarrow> if tag = [] then full_url else full_url @ ''#'' @ tag)))
           | Some scheme \<Rightarrow> Returned ()))"

lemma py_strip_id:
  assumes "s \<noteq> []" and "\<not> is_space (hd s)" and "\<not> is_space (last s)"
  shows "py_strip s = s"
proof -
  from assms(1,2) have a: "dropWhile is_space s = s" by (cases s) simp_all
  from assms(1,3) have b: "dropWhile is_space (rev s) = rev s"
    by (cases "rev s") (simp_all add: hd_rev [symmetric])
  show ?thesis by (simp add: py_strip_def a b)
qed

lemma splittag_https:
  "\<exists>r t. splittag (''https://'' @ rest) = (''https://'' @ r, t)"
proof (cases "CHR ''#'' \<in> set rest")
  case False
  then show ?thesis by (simp add: splittag_def)
next
  case True
  then obtain r1 r2 where r: "rest = r1 @ CHR ''#'' # r2" and n: "CHR ''#'' \<notin> set r2"
    by (auto dest: split_list_last)
  have "rev (''https://'' @ rest) = rev r2 @ CHR ''#'' # rev (''https://'' @ r1)"
    by (simp add: r)
  moreover have "\<forall>c \<in> set (rev r2). c \<noteq> CHR ''#''" using n by auto
  moreover have "dropWhile (\<lambda>c. c \<noteq> CHR ''#'') (rev r2 @ CHR ''#'' # rev (''https://'' @ r1))
                   = dropWhile (\<lambda>c. c \<noteq> CHR ''#'') (rev r2) @ CHR ''#'' # rev (''https://'' @ r1)"
    by (rule dropWhile_append3) simp
  moreover have "dropWhile (\<lambda>c. c \<noteq> CHR ''#'') (rev r2) = []"
    using n by (auto simp: dropWhile_eq_Nil_conv)
  ultimately have "dropWhile (\<lambda>c. c \<noteq> CHR ''#'') (rev (''https://'' @ rest))
                     = CHR ''#'' # rev (''https://'' @ r1)"
    by (simp only: append_Nil)
  then have "rev (tl (dropWhile (\<lambda>c. c \<noteq> CHR ''#'') (rev (''https://'' @ rest))))
               = ''https://'' @ r1"
    by simp
  moreover have "CHR ''#'' \<in> set (''https://'' @ rest)" using True by simp
  ultimately show ?thesis
    unfolding splittag_def by (simp only: if_True) blast
qed

lemma Request_https:
  assumes "rest \<noteq> []" and "\<not> is_space (last rest)"
  shows "Request (''https://'' @ rest) = Returned ()"
proof -
  let ?u = "''https://'' @ rest"
  have "py_strip ?u = ?u"
    using assms by (intro py_strip_id) (simp_all add: is_space_def)
  then have u: "unwrap ?u = ?u"
    by (simp add: unwrap_def Let_def)
  from splittag_https [of rest] obtain r t where st: "splittag ?u = (''https://'' @ r, t)"
    by blast
  have "splittype (''https://'' @ r) = Some ''https''"
    by (simp add: splittype_def Let_def)
  with u st show ?thesis
    by (simp add: Request_def)
qed

lemma Request_RECITER_PAGE: "Request RECITER_PAGE = Returned ()"
proof -
  have "RECITER_PAGE = ''https://'' @ ''quranicaudio.com/quran/5''"
    by (simp add: RECITER_PAGE_def)
  moreover have "Request (''https://'' @ ''quranicaudio.com/quran/5'') = Returned ()"
    by (rule Request_https) (simp_all add: is_space_def)
  ultimately show ?thesis by simp
qed

section \<open>The world: files, network, output\<close>

text \<open>
  The file system maps a path to the bytes of the regular file there. The network is
  an oracle: \<open>srv k url\<close> is what the \<open>k\<close>-th HTTP request of the run (counted from 0)
  gets when it asks for \<open>url\<close>. Either \<^verbatim>\<open>urlopen\<close> raises, or it returns a response
  with a status and a body; the body arrives complete (\<open>None\<close>) or \<^verbatim>\<open>read\<close> raises
  after the bytes given (\<open>Some e\<close>). The world records every request, every
  \<^verbatim>\<open>time.sleep\<close> and every line printed.

  Directories are implicit: creating \<^verbatim>\<open>AUDIO_DIR\<close>, opening a destination for writing
  and unlinking a file that exists always succeed, so the exceptions of the model come
  from the manifest and from the network.
\<close>

datatype reply = Refused exn | Answer nat bytes "exn option"

type_synonym server = "nat \<Rightarrow> string \<Rightarrow> reply"

record world =
  files :: "path \<rightharpoonup> bytes"
  requests :: "string list"
  sleeps :: "nat list"
  stdout :: "string list"
  stderr :: "string list"

definition urlopen :: "server \<Rightarrow> string \<Rightarrow> world \<Rightarrow> reply \<times> world" where
  "urlopen srv url w = (srv (length (requests w)) url, w\<lparr>requests := requests w @ [url]\<rparr>)"

definition print_out :: "string \<Rightarrow> world \<Rightarrow> world" where
  "print_out line w = w\<lparr>stdout := stdout w @ [line]\<rparr>"

definition print_err :: "string \<Rightarrow> world \<Rightarrow> world" where
  "print_err line w = w\<lparr>stderr := stderr w @ [line]\<rparr>"

section \<open>\<^verbatim>\<open>discover_urls\<close>\<close>

text \<open>
  The request object for the reciter page, then one request;
  \<^verbatim>\<open>response.read()\<close> takes the whole body and
  the status is not looked at. The page text is kept as the bytes of the reply: the
  pattern tests ASCII characters only, and decoding UTF-8 with substitution leaves
  those in place and makes none from other bytes.
\<close>

definition discover_urls :: "server \<Rightarrow> world \<Rightarrow> (int \<times> string) list result \<times> world" where
  "discover_urls srv w =
     (case Request RECITER_PAGE of
        Raised e \<Rightarrow> (Raised e, w)
      | Returned req \<Rightarrow>
          (case urlopen srv RECITER_PAGE w of
             (Refused e, w1) \<Rightarrow> (Raised e, w1)
           | (Answer st body (Some e), w1) \<Rightarrow> (Raised e, w1)
           | (Answer st body None, w1) \<Rightarrow>
               (let urls = extract_urls body
                in if length urls < 114
                   then (Raised (Exn RuntimeError
                           (''Expected at least 114 MP3 links on the reciter page; found ''
                            @ str_nat (length urls) @ ''.'')), w1)
                   else (Returned urls, w1))))"

lemma discover_urls_unfold:
  "discover_urls srv w =
     (case urlopen srv RECITER_PAGE w of
        (Refused e, w1) \<Rightarrow> (Raised e, w1)
      | (Answer st body (Some e), w1) \<Rightarrow> (Raised e, w1)
      | (Answer st body None, w1) \<Rightarrow>
          (let urls = extract_urls body
           in if length urls < 114
              then (Raised (Exn RuntimeError
                      (''Expected at least 114 MP3 links on the reciter page; found ''
                       @ str_nat (length urls) @ ''.'')), w1)
              else (Returned urls, w1)))"
  by (simp add: discover_urls_def Request_RECITER_PAGE)

section \<open>\<^verbatim>\<open>download_file\<close>\<close>

text \<open>
  The \<^verbatim>\<open>while True\<close> loop of lines 47 to 51. \<^verbatim>\<open>response.read(CHUNK_SIZE)\<close> gives the
  next \<open>CHUNK_SIZE\<close> bytes of what is left of the body (fewer at its end); when
  nothing is left it gives the empty chunk, which ends the loop, or raises when the
  body was cut short. \<open>fh\<close> is what has been written to the open file.
\<close>

function stream_body :: "bytes \<Rightarrow> exn option \<Rightarrow> bytes \<Rightarrow> unit result \<times> bytes" where
  "stream_body body fault fh =
     (if body = []
      then (case fault of None \<Rightarrow> (Returned (), fh) | Some e \<Rightarrow> (Raised e, fh))
      else stream_body (drop CHUNK_SIZE body) fault (fh @ take CHUNK_SIZE body))"
  by pat_completeness auto
termination
  by (relation "measure (\<lambda>(body, fault, fh). length body)") (auto simp: CHUNK_SIZE_def)

declare stream_body.simps [simp del]

text \<open>
  The body of the \<^verbatim>\<open>try\<close>, lines 40 to 52. The request object is built first, then
  \<^verbatim>\<open>urlopen\<close> is called; only when it has returned a response is the destination
  opened with \<^verbatim>\<open>"wb"\<close>, which creates the file or empties it (opening is taken to
  succeed, see the section on the world). Leaving the \<^verbatim>\<open>with\<close> block, by return or by exception,
  closes the file with what was written.
\<close>

definition write_file :: "path \<Rightarrow> bytes \<Rightarrow> world \<Rightarrow> world" where
  "write_file p b w = w\<lparr>files := (files w)(p \<mapsto> b)\<rparr>"

definition unlink :: "path \<Rightarrow> world \<Rightarrow> world" where
  "unlink p w = w\<lparr>files := (files w)(p := None)\<rparr>"

definition path_exists :: "path \<Rightarrow> world \<Rightarrow> bool" where
  "path_exists p w = (files w p \<noteq> None)"

definition time_sleep :: "nat \<Rightarrow> world \<Rightarrow> world" where
  "time_sleep n w = w\<lparr>sleeps := sleeps w @ [n]\<rparr>"

definition attempt_download :: "server \<Rightarrow> string \<Rightarrow> path \<Rightarrow> world \<Rightarrow> unit result \<times> world" where
  "attempt_download srv url destination w =
     (case Request url of
        Raised e \<Rightarrow> (Raised e, w)
      | Returned req \<Rightarrow>
          (case urlopen srv url w of
             (Refused e, w1) \<Rightarrow> (Raised e, w1)
           | (Answer status body fault, w1) \<Rightarrow>
               (let w2 = write_file destination [] w1
                in if status \<noteq> 200
                   then (Raised (Exn RuntimeError (''HTTP '' @ str_nat status)), w2)
                   else (case stream_body body fault [] of
                           (r, fh) \<Rightarrow> (r, write_file destination fh w2)))))"

lemma attempt_download_bad_url:
  "Request url = Raised e \<Longrightarrow> attempt_download srv url destination w = (Raised e, w)"
  by (simp add: attempt_download_def)

lemma attempt_download_unfold:
  "Request url = Returned () \<Longrightarrow>
     attempt_download srv url destination w =
       (case urlopen srv url w of
          (Refused e, w1) \<Rightarrow> (Raised e, w1)
        | (Answer status body fault, w1) \<Rightarrow>
            (let w2 = write_file destination [] w1
             in if status \<noteq> 200
                then (Raised (Exn RuntimeError (''HTTP '' @ str_nat status)), w2)
                else (case stream_body body fault [] of
                        (r, fh) \<Rightarrow> (r, write_file destination fh w2))))"
  by (simp add: attempt_download_def)

text \<open>
  \<^verbatim>\<open>except (error.URLError, error.HTTPError, RuntimeError)\<close>: the handler catches
  the instances of these classes and of their subclasses.
\<close>

definition retryable :: "exn \<Rightarrow> bool" where
  "retryable e =
     (isinstance e ''URLError'' \<or> isinstance e ''HTTPError'' \<or> isinstance e ''RuntimeError'')"

lemma retryable_simps [simp]:
  "retryable (Exn URLError m)" "retryable (Exn HTTPError m)" "retryable (Exn RuntimeError m)"
  "\<not> retryable (Exn ConnectionResetError m)" "\<not> retryable (Exn ValueError m)"
  by (simp_all add: retryable_def isinstance_def URLError_def HTTPError_def RuntimeError_def
      ConnectionResetError_def ValueError_def)

lemma isinstance_RuntimeError [simp]: "isinstance (Exn RuntimeError m) ''RuntimeError''"
  by (simp add: isinstance_def RuntimeError_def)

definition ellipsis :: string where
  "ellipsis = [CHR 0xE2, CHR 0x80, CHR 0xA6]"

definition retry_message :: "nat \<Rightarrow> string \<Rightarrow> exn \<Rightarrow> nat \<Rightarrow> string" where
  "retry_message attempt url exc sleep_seconds =
     ''Retry '' @ str_nat attempt @ ''/'' @ str_nat RETRY_LIMIT @ '' for '' @ url
     @ '' after error: '' @ msg exc @ ''. Waiting '' @ str_nat sleep_seconds @ ''s'' @ ellipsis"

text \<open>
  The \<^verbatim>\<open>for attempt in range(1, RETRY_LIMIT + 1)\<close> loop over the attempts still to
  make. An exception of another class than the three leaves the function as it is,
  with no cleanup.
\<close>

fun download_loop :: "server \<Rightarrow> string \<Rightarrow> path \<Rightarrow> nat list \<Rightarrow> world \<Rightarrow> unit result \<times> world" where
  "download_loop srv url destination [] w = (Returned (), w)"
| "download_loop srv url destination (attempt # rest) w =
     (case attempt_download srv url destination w of
        (Returned u, w1) \<Rightarrow> (Returned (), w1)
      | (Raised exc, w1) \<Rightarrow>
          if retryable exc
          then (let w2 = (if path_exists destination w1 then unlink destination w1 else w1)
                in if attempt = RETRY_LIMIT
                   then (Raised (Exn RuntimeError
                           (''Failed to download '' @ url @ '': '' @ msg exc)), w2)
                   else (let sleep_seconds = 2 * attempt;
                             w3 = print_err (retry_message attempt url exc sleep_seconds) w2;
                             w4 = time_sleep sleep_seconds w3
                         in download_loop srv url destination rest w4))
          else (Raised exc, w1))"

definition download_file :: "server \<Rightarrow> string \<Rightarrow> path \<Rightarrow> world \<Rightarrow> unit result \<times> world" where
  "download_file srv url destination w =
     download_loop srv url destination [1..<RETRY_LIMIT + 1] w"

section \<open>\<^verbatim>\<open>load_surahs\<close>\<close>

text \<open>
  What \<^verbatim>\<open>json.loads\<close> returns (numbers with a fraction or an exponent are left out).
  An object is the list of its members, keys distinct.
\<close>

datatype json = JNull | JBool bool | JInt int | JStr string | JArr "json list"
  | JObj "(string \<times> json) list"

text \<open>
  The environment of a run: the network, what reading and parsing
  \<^verbatim>\<open>SurahList.json\<close> gives (\<open>Raised\<close> when the file is absent or is not JSON), and
  Python's \<^verbatim>\<open>int()\<close> on a string, whose grammar is not needed here.
\<close>

record env =
  net :: server
  manifest :: "json result"
  int_str :: "string \<Rightarrow> int result"

record surah =
  number :: int
  filename :: json

text \<open>\<^verbatim>\<open>for entry in data\<close>: what iterating over the value yields.\<close>

fun py_iter :: "json \<Rightarrow> json list result" where
  "py_iter (JArr xs) = Returned xs"
| "py_iter (JObj kvs) = Returned (map (\<lambda>kv. JStr (fst kv)) kvs)"
| "py_iter (JStr s) = Returned (map (\<lambda>c. JStr [c]) s)"
| "py_iter _ = Raised (Exn TypeError ''object is not iterable'')"

text \<open>\<^verbatim>\<open>entry[key]\<close> with a string key.\<close>

fun subscript :: "json \<Rightarrow> string \<Rightarrow> json result" where
  "subscript (JObj kvs) k =
     (case map_of kvs k of
        Some v \<Rightarrow> Returned v
      | None \<Rightarrow> Raised (Exn KeyError ([CHR 0x27] @ k @ [CHR 0x27])))"
| "subscript (JStr s) k = Raised (Exn TypeError ''string indices must be integers'')"
| "subscript (JArr xs) k = Raised (Exn TypeError ''list indices must be integers or slices, not str'')"
| "subscript _ k = Raised (Exn TypeError ''object is not subscriptable'')"

fun py_int :: "(string \<Rightarrow> int result) \<Rightarrow> json \<Rightarrow> int result" where
  "py_int f (JInt n) = Returned n"
| "py_int f (JBool b) = Returned (if b then 1 else 0)"
| "py_int f (JStr s) = f s"
| "py_int f _ = Raised (Exn TypeError ''int() argument must be a string, a bytes-like object or a real number'')"

fun load_entries :: "(string \<Rightarrow> int result) \<Rightarrow> json list \<Rightarrow> surah list \<Rightarrow> surah list result" where
  "load_entries f [] surahs = Returned surahs"
| "load_entries f (entry # data) surahs =
     (case subscript entry ''number'' of
        Raised e \<Rightarrow> Raised e
      | Returned n \<Rightarrow>
          (case py_int f n of
             Raised e \<Rightarrow> Raised e
           | Returned num \<Rightarrow>
               (case subscript entry ''audioFile'' of
                  Raised e \<Rightarrow> Raised e
                | Returned fname \<Rightarrow>
                    load_entries f data (surahs @ [\<lparr>number = num, filename = fname\<rparr>]))))"

definition load_surahs :: "env \<Rightarrow> surah list result" where
  "load_surahs ev =
     (case manifest ev of
        Raised e \<Rightarrow> Raised e
      | Returned data \<Rightarrow>
          (case py_iter data of
             Raised e \<Rightarrow> Raised e
           | Returned entries \<Rightarrow> load_entries (int_str ev) entries []))"

section \<open>\<^verbatim>\<open>main\<close>\<close>

text \<open>
  \<^verbatim>\<open>AUDIO_DIR / entry["filename"]\<close>: pathlib joins a string and raises
  \<^verbatim>\<open>TypeError\<close> on any other value.
\<close>

fun dest_path :: "json \<Rightarrow> path result" where
  "dest_path (JStr f) = Returned (path_join AUDIO_DIR f)"
| "dest_path _ = Raised (Exn TypeError ''unsupported operand type(s) for /'')"

text \<open>Line 98: the entries whose destination does not exist, in the order of the manifest.\<close>

fun missing_entries :: "world \<Rightarrow> surah list \<Rightarrow> surah list result" where
  "missing_entries w [] = Returned []"
| "missing_entries w (entry # surahs) =
     (case dest_path (filename entry) of
        Raised e \<Rightarrow> Raised e
      | Returned p \<Rightarrow>
          (case missing_entries w surahs of
             Raised e \<Rightarrow> Raised e
           | Returned rest \<Rightarrow> Returned (if path_exists p w then rest else entry # rest)))"

definition left_arrow :: string where
  "left_arrow = [CHR 0xE2, CHR 0x86, CHR 0x90]"

definition no_url_message :: "int \<Rightarrow> string" where
  "no_url_message num = ''No download URL discovered for surah '' @ fmt_03d num @ ''; skipping.''"

definition progress_message :: "nat \<Rightarrow> nat \<Rightarrow> string \<Rightarrow> string \<Rightarrow> string" where
  "progress_message index total_n fname url =
     ''['' @ str_nat index @ ''/'' @ str_nat total_n @ ''] '' @ fname @ '' '' @ left_arrow
     @ '' '' @ url"

definition download_error_message :: "string \<Rightarrow> exn \<Rightarrow> string" where
  "download_error_message fname exc = ''Error downloading '' @ fname @ '': '' @ msg exc"

text \<open>
  The loop of lines 106 to 120 over the entries still to process. \<open>Returned (Some c)\<close>
  is a \<^verbatim>\<open>return c\<close> from inside the loop, \<open>Returned None\<close> the loop running to its
  end, \<open>Raised\<close> an exception that \<^verbatim>\<open>except RuntimeError\<close> does not catch.
\<close>

fun download_missing ::
  "server \<Rightarrow> (int \<times> string) list \<Rightarrow> nat \<Rightarrow> nat \<Rightarrow> surah list \<Rightarrow> world \<Rightarrow> int option result \<times> world"
where
  "download_missing srv url_map total_n index [] w = (Returned None, w)"
| "download_missing srv url_map total_n index (entry # rest) w =
     (case map_of url_map (number entry) of
        None \<Rightarrow> (Returned (Some 1), print_err (no_url_message (number entry)) w)
      | Some url \<Rightarrow>
          (case filename entry of
             JStr fname \<Rightarrow>
               (let destination = path_join AUDIO_DIR fname;
                    w1 = print_out (progress_message index total_n fname url) w
                in case download_file srv url destination w1 of
                     (Returned u, w2) \<Rightarrow> download_missing srv url_map total_n (index + 1) rest w2
                   | (Raised exc, w2) \<Rightarrow>
                       if isinstance exc ''RuntimeError''
                       then (Returned (Some 1), print_err (download_error_message fname exc) w2)
                       else (Raised exc, w2))
           | _ \<Rightarrow> (Raised (Exn TypeError ''unsupported operand type(s) for /''), w)))"

definition downloading_message :: "nat \<Rightarrow> string" where
  "downloading_message n =
     ''Downloading '' @ str_nat n @ '' surah MP3 files to '' @ AUDIO_DIR @ ellipsis"

text \<open>
  \<^verbatim>\<open>main\<close>. \<open>Raised\<close> is an exception leaving \<^verbatim>\<open>main\<close> (the process ends with a
  traceback), \<open>Returned c\<close> the exit code. Directories are implicit in the file
  system of the model, so \<^verbatim>\<open>AUDIO_DIR.mkdir(parents=True, exist_ok=True)\<close> changes
  nothing.
\<close>

definition main :: "env \<Rightarrow> world \<Rightarrow> int result \<times> world" where
  "main ev w =
     (case load_surahs ev of
        Raised e \<Rightarrow> (Raised e, w)
      | Returned surahs \<Rightarrow>
          (case discover_urls (net ev) w of
             (Raised exc, w1) \<Rightarrow>
               (Returned 1, print_err (''Unable to discover MP3 URLs: '' @ msg exc) w1)
           | (Returned url_map, w1) \<Rightarrow>
               (case missing_entries w1 surahs of
                  Raised e \<Rightarrow> (Raised e, w1)
                | Returned missing \<Rightarrow>
                    if missing = []
                    then (Returned 0,
                          print_out ''All surah files already present. Nothing to download.'' w1)
                    else (let total_n = length missing;
                              w2 = print_out (downloading_message total_n) w1
                          in case download_missing (net ev) url_map total_n 1 missing w2 of
                               (Returned None, w3) \<Rightarrow>
                                 (Returned 0, print_out ''Download completed successfully.'' w3)
                             | (Returned (Some code), w3) \<Rightarrow> (Returned code, w3)
                             | (Raised e, w3) \<Rightarrow> (Raised e, w3)))))"

section \<open>Failing attempts and example worlds\<close>

text \<open>
  An attempt fails in the sense of the handler of \<^verbatim>\<open>download_file\<close> when what it gets
  from the network makes the \<^verbatim>\<open>try\<close> block raise one of the classes the handler
  catches: \<^verbatim>\<open>urlopen\<close> raises one, the status is not 200 (the \<^verbatim>\<open>RuntimeError\<close> of
  line 46), or \<^verbatim>\<open>read\<close> raises one. An exception of another class (a
  \<^verbatim>\<open>ConnectionResetError\<close> out of \<^verbatim>\<open>read\<close>, say) is a failure that the handler
  does not see.
\<close>

definition reply_fails :: "reply \<Rightarrow> bool" where
  "reply_fails r =
     (case r of
        Refused e \<Rightarrow> retryable e
      | Answer status body fault \<Rightarrow>
          status \<noteq> 200 \<or> (case fault of None \<Rightarrow> False | Some e \<Rightarrow> retryable e))"

text \<open>The world before anything has happened: no file, no request, no output.\<close>

definition w0 :: world where
  "w0 = \<lparr>files = Map.empty, requests = [], sleeps = [], stdout = [], stderr = []\<rparr>"

section \<open>Properties of \<^verbatim>\<open>download_file\<close>\<close>

lemma stream_body_result:
  "stream_body body fault fh =
     ((case fault of None \<Rightarrow> Returned () | Some e \<Rightarrow> Raised e), fh @ body)"
proof (induction body fault fh rule: stream_body.induct)
  case (1 body fault fh)
  show ?case
  proof (cases "body = []")
    case True
    then show ?thesis by (simp add: stream_body.simps split: option.splits)
  next
    case False
    from "1.IH" [OF False] False show ?thesis
      by (subst stream_body.simps) simp
  qed
qed



lemma attempt_download_succeeds:
  assumes "Request url = Returned ()"
    and "srv (length (requests w)) url = Answer 200 body None"
  shows "attempt_download srv url d w =
           (Returned (), write_file d body (write_file d [] (w\<lparr>requests := requests w @ [url]\<rparr>)))"
  using assms(2)
  by (simp add: attempt_download_unfold [OF assms(1)] urlopen_def Let_def stream_body_result)

lemma attempt_download_read_fault:
  assumes "Request url = Returned ()"
    and "srv (length (requests w)) url = Answer 200 body (Some e)"
  shows "attempt_download srv url d w =
           (Raised e, write_file d body (write_file d [] (w\<lparr>requests := requests w @ [url]\<rparr>)))"
  using assms(2)
  by (simp add: attempt_download_unfold [OF assms(1)] urlopen_def Let_def stream_body_result)

lemma attempt_download_fails:
  assumes "Request url = Returned ()"
    and "reply_fails (srv (length (requests w)) url)"
  shows "\<exists>exc w1. attempt_download srv url d w = (Raised exc, w1) \<and> retryable exc"
  using assms(2)
  by (auto simp: attempt_download_unfold [OF assms(1)] urlopen_def reply_fails_def Let_def
      stream_body_result split: reply.splits option.splits)


lemma attempt_download_effects:
  assumes "attempt_download srv url d w = (r, w1)"
  shows "Request url = Returned () \<Longrightarrow> requests w1 = requests w @ [url]"
    and "sleeps w1 = sleeps w"
    and "stdout w1 = stdout w" and "stderr w1 = stderr w"
    and "p \<noteq> d \<Longrightarrow> files w1 p = files w p"
    and "\<exists>k. requests w1 = requests w @ replicate k url"
proof -
  have "(Request url = Returned () \<longrightarrow> requests w1 = requests w @ [url])
        \<and> sleeps w1 = sleeps w \<and> stdout w1 = stdout w
        \<and> stderr w1 = stderr w \<and> (p \<noteq> d \<longrightarrow> files w1 p = files w p)
        \<and> (\<exists>k. requests w1 = requests w @ replicate k url)"
  proof (cases "Request url")
    case (Raised e)
    with assms have "w1 = w" by (simp add: attempt_download_bad_url)
    with Raised show ?thesis by (auto intro: exI [of _ 0])
  next
    case (Returned u)
    then have ok: "Request url = Returned ()" by simp
    have "requests w1 = requests w @ [url] \<and> sleeps w1 = sleeps w \<and> stdout w1 = stdout w
        \<and> stderr w1 = stderr w \<and> (p \<noteq> d \<longrightarrow> files w1 p = files w p)"
    proof (cases "srv (length (requests w)) url")
      case (Refused e)
      with assms show ?thesis
        by (auto simp: attempt_download_unfold [OF ok] urlopen_def)
    next
      case (Answer st body fault)
      with assms show ?thesis
        by (cases "st = 200")
           (auto simp: attempt_download_unfold [OF ok] urlopen_def write_file_def Let_def
              stream_body_result)
    qed
    then show ?thesis by (auto intro: exI [of _ 1])
  qed
  then show "Request url = Returned () \<Longrightarrow> requests w1 = requests w @ [url]"
    and "sleeps w1 = sleeps w"
    and "stdout w1 = stdout w" and "stderr w1 = stderr w"
    and "p \<noteq> d \<Longrightarrow> files w1 p = files w p"
    and "\<exists>k. requests w1 = requests w @ replicate k url"
    by simp_all
qed

lemma attempt_download_returned:
  assumes "attempt_download srv url d w = (Returned u, w1)"
  shows "path_exists d w1"
proof (cases "Request url")
  case (Raised e)
  with assms show ?thesis by (simp add: attempt_download_bad_url)
next
  case (Returned v)
  then have ok: "Request url = Returned ()" by simp
  show ?thesis
  proof (cases "srv (length (requests w)) url")
    case (Refused e)
    with assms show ?thesis
      by (simp add: attempt_download_unfold [OF ok] urlopen_def)
  next
    case (Answer st body fault)
    with assms show ?thesis
      by (cases "st = 200")
         (auto simp: attempt_download_unfold [OF ok] urlopen_def write_file_def Let_def
            stream_body_result path_exists_def)
  qed
qed

lemma handler_cleanup:
  "\<not> path_exists d (if path_exists d w1 then unlink d w1 else w1)"
  by (simp add: path_exists_def unlink_def)

lemma download_loop_retry:
  assumes ok: "Request url = Returned ()"
    and "reply_fails (srv (length (requests w)) url)" and "attempt \<noteq> RETRY_LIMIT"
  shows "\<exists>w4. download_loop srv url d (attempt # rest) w = download_loop srv url d rest w4
           \<and> requests w4 = requests w @ [url] \<and> sleeps w4 = sleeps w @ [2 * attempt]
           \<and> \<not> path_exists d w4"
proof -
  from attempt_download_fails [where srv = srv and w = w and url = url and d = d, OF ok assms(2)]
  obtain exc w1
    where a: "attempt_download srv url d w = (Raised exc, w1)" and r: "retryable exc"
    by blast
  let ?w2 = "if path_exists d w1 then unlink d w1 else w1"
  let ?w4 = "time_sleep (2 * attempt) (print_err (retry_message attempt url exc (2 * attempt)) ?w2)"
  have "download_loop srv url d (attempt # rest) w = download_loop srv url d rest ?w4"
    using a r assms(3) by (simp add: Let_def)
  moreover have "requests ?w4 = requests w @ [url]"
    using attempt_download_effects(1) [OF a ok]
    by (simp add: time_sleep_def print_err_def unlink_def)
  moreover have "sleeps ?w4 = sleeps w @ [2 * attempt]"
    using attempt_download_effects(2) [OF a]
    by (simp add: time_sleep_def print_err_def unlink_def)
  moreover have "\<not> path_exists d ?w4"
    by (simp add: time_sleep_def print_err_def unlink_def path_exists_def)
  ultimately show ?thesis by blast
qed

lemma download_loop_last:
  assumes ok: "Request url = Returned ()"
    and "reply_fails (srv (length (requests w)) url)"
  shows "\<exists>exc w2. download_loop srv url d (RETRY_LIMIT # rest) w =
             (Raised (Exn RuntimeError (''Failed to download '' @ url @ '': '' @ msg exc)), w2)
           \<and> requests w2 = requests w @ [url] \<and> sleeps w2 = sleeps w
           \<and> \<not> path_exists d w2"
proof -
  from attempt_download_fails [where srv = srv and w = w and url = url and d = d, OF ok assms(2)]
  obtain exc w1
    where a: "attempt_download srv url d w = (Raised exc, w1)" and r: "retryable exc"
    by blast
  let ?w2 = "if path_exists d w1 then unlink d w1 else w1"
  have "download_loop srv url d (RETRY_LIMIT # rest) w =
          (Raised (Exn RuntimeError (''Failed to download '' @ url @ '': '' @ msg exc)), ?w2)"
    using a r by (simp add: Let_def)
  moreover have "requests ?w2 = requests w @ [url]"
    using attempt_download_effects(1) [OF a ok] by (simp add: unlink_def)
  moreover have "sleeps ?w2 = sleeps w"
    using attempt_download_effects(2) [OF a] by (simp add: unlink_def)
  moreover have "\<not> path_exists d ?w2"
    by (rule handler_cleanup)
  ultimately show ?thesis by blast
qed



lemma download_loop_requests:
  "\<exists>k. requests (snd (download_loop srv url d as w)) = requests w @ replicate k url"
proof (induction as arbitrary: w)
  case Nil
  show ?case by (auto intro: exI [of _ 0])
next
  case (Cons a rest)
  obtain r w1 where att: "attempt_download srv url d w = (r, w1)"
    by (cases "attempt_download srv url d w")
  from attempt_download_effects(6) [OF att] obtain k1
    where k1: "requests w1 = requests w @ replicate k1 url" by blast
  let ?w2 = "if path_exists d w1 then unlink d w1 else w1"
  have w2: "requests ?w2 = requests w @ replicate k1 url"
    using k1 by (simp add: unlink_def)
  show ?case
  proof (cases r)
    case (Returned u)
    with att k1 show ?thesis by auto
  next
    case (Raised exc)
    show ?thesis
    proof (cases "retryable exc \<and> a \<noteq> RETRY_LIMIT")
      case False
      with att Raised k1 w2 show ?thesis
        by (auto simp: Let_def)
    next
      case True
      let ?w4 = "time_sleep (2 * a) (print_err (retry_message a url exc (2 * a)) ?w2)"
      have w4: "requests ?w4 = requests w @ replicate k1 url"
        using w2 by (simp add: time_sleep_def print_err_def)
      have step: "download_loop srv url d (a # rest) w = download_loop srv url d rest ?w4"
        using att Raised True by (simp add: Let_def)
      from Cons.IH [of ?w4] obtain k where
        "requests (snd (download_loop srv url d rest ?w4)) = requests ?w4 @ replicate k url"
        by blast
      then have "requests (snd (download_loop srv url d (a # rest) w))
                   = requests w @ replicate (k1 + k) url"
        unfolding step w4 by (simp add: replicate_add)
      then show ?thesis by blast
    qed
  qed
qed

lemma attempts_list: "[1..<RETRY_LIMIT + 1] = [1, 2, RETRY_LIMIT]"
  by (simp add: RETRY_LIMIT_def upt_rec)


lemma download_file_exhausted:
  assumes ok: "Request url = Returned ()"
    and "reply_fails (srv (length (requests w)) url)"
    and "reply_fails (srv (length (requests w) + 1) url)"
    and "reply_fails (srv (length (requests w) + 2) url)"
  shows "\<exists>exc w'. download_file srv url d w =
             (Raised (Exn RuntimeError (''Failed to download '' @ url @ '': '' @ msg exc)), w')
           \<and> \<not> path_exists d w' \<and> requests w' = requests w @ [url, url, url]
           \<and> sleeps w' = sleeps w @ [2, 4]"
proof -
  have ne: "(1::nat) \<noteq> RETRY_LIMIT" "(2::nat) \<noteq> RETRY_LIMIT"
    by (simp_all add: RETRY_LIMIT_def)
  from download_loop_retry [where srv = srv and w = w and url = url and d = d
      and rest = "[2, RETRY_LIMIT]", OF ok assms(2) ne(1)] obtain wa
    where a: "download_loop srv url d [1, 2, RETRY_LIMIT] w
                = download_loop srv url d [2, RETRY_LIMIT] wa"
      and ra: "requests wa = requests w @ [url]" and sa: "sleeps wa = sleeps w @ [2 * 1]"
    by blast
  from assms(3) ra have fb: "reply_fails (srv (length (requests wa)) url)" by simp
  from download_loop_retry [where srv = srv and w = wa and url = url and d = d
      and rest = "[RETRY_LIMIT]", OF ok fb ne(2)] obtain wb
    where b: "download_loop srv url d [2, RETRY_LIMIT] wa
                = download_loop srv url d [RETRY_LIMIT] wb"
      and rb: "requests wb = requests wa @ [url]" and sb: "sleeps wb = sleeps wa @ [2 * 2]"
    by blast
  from assms(4) ra rb have fc: "reply_fails (srv (length (requests wb)) url)" by simp
  from download_loop_last [where srv = srv and w = wb and url = url and d = d
      and rest = "[]", OF ok fc] obtain exc wc
    where c: "download_loop srv url d [RETRY_LIMIT] wb =
                (Raised (Exn RuntimeError (''Failed to download '' @ url @ '': '' @ msg exc)), wc)"
      and rc: "requests wc = requests wb @ [url]" and sc: "sleeps wc = sleeps wb"
      and gone: "\<not> path_exists d wc"
    by blast
  from a b c have "download_file srv url d w =
      (Raised (Exn RuntimeError (''Failed to download '' @ url @ '': '' @ msg exc)), wc)"
    by (simp only: download_file_def attempts_list)
  moreover from ra rb rc have "requests wc = requests w @ [url, url, url]" by simp
  moreover from sa sb sc have "sleeps wc = sleeps w @ [2, 4]" by simp
  ultimately show ?thesis using gone by blast
qed



section \<open>Properties of the scan and of \<^verbatim>\<open>discover_urls\<close>\<close>

text \<open>
  The dictionary update of lines 78 and 79 for one match, and the key it uses. The
  example page is a row of links \<^verbatim>\<open>https://h/NNN.mp3\<close>, one for each number of a list,
  separated by blanks.
\<close>

definition match_key :: "string \<times> string \<Rightarrow> int" where
  "match_key m = int_of_digits (snd m)"

definition record_match :: "(int \<times> string) list \<Rightarrow> string \<times> string \<Rightarrow> (int \<times> string) list" where
  "record_match urls m = AList.update (match_key m) (fst m) urls"

lemma extract_urls_foldl: "extract_urls html = foldl record_match [] (finditer html)"
proof -
  have "(\<lambda>urls (url, ds). AList.update (int_of_digits ds) url urls) = record_match"
    by (intro ext) (simp add: record_match_def match_key_def split: prod.splits)
  then show ?thesis by (simp add: extract_urls_def)
qed

lemma foldl_record_keys:
  "fst ` set (foldl record_match al ms) = fst ` set al \<union> match_key ` set ms"
  by (induction ms arbitrary: al) (auto simp: record_match_def dom_update)

lemma foldl_record_distinct:
  "distinct (map fst al) \<Longrightarrow> distinct (map fst (foldl record_match al ms))"
  by (induction ms arbitrary: al) (simp_all add: record_match_def distinct_update)


lemma extract_urls_distinct: "distinct (map fst (extract_urls html))"
  by (simp add: extract_urls_foldl foldl_record_distinct)

lemma extract_urls_keys: "fst ` set (extract_urls html) = match_key ` set (finditer html)"
  by (simp add: extract_urls_foldl foldl_record_keys)

lemma extract_urls_length:
  "length (extract_urls html) = card (match_key ` set (finditer html))"
proof -
  have "length (extract_urls html) = length (map fst (extract_urls html))" by simp
  also have "\<dots> = card (set (map fst (extract_urls html)))"
    by (rule distinct_card [symmetric]) (rule extract_urls_distinct)
  also have "\<dots> = card (match_key ` set (finditer html))"
    by (simp add: extract_urls_keys)
  finally show ?thesis .
qed

lemma discover_urls_world:
  "snd (discover_urls srv w) = w\<lparr>requests := requests w @ [RECITER_PAGE]\<rparr>"
  by (cases "srv (length (requests w)) RECITER_PAGE")
     (auto simp: discover_urls_unfold urlopen_def Let_def split: option.splits)

lemma discover_urls_too_few:
  assumes "srv (length (requests w)) RECITER_PAGE = Answer st body None"
    and "card (match_key ` set (finditer body)) < 114"
  shows "discover_urls srv w =
           (Raised (Exn RuntimeError
              (''Expected at least 114 MP3 links on the reciter page; found ''
               @ str_nat (card (match_key ` set (finditer body))) @ ''.'')),
            w\<lparr>requests := requests w @ [RECITER_PAGE]\<rparr>)"
  using assms
  by (simp add: discover_urls_unfold urlopen_def Let_def extract_urls_length)


definition digits3 :: "nat \<Rightarrow> string" where
  "digits3 k = [digit_char (k div 100), digit_char (k div 10), digit_char k]"

definition example_link :: "nat \<Rightarrow> string" where
  "example_link k = ''https://h/'' @ digits3 k @ ''.mp3''"

definition example_page :: "nat list \<Rightarrow> string" where
  "example_page ks = concat (map (\<lambda>k. example_link k @ '' '') ks)"

lemma is_digit_digit_char: "is_digit (digit_char n)"
proof -
  have "n mod 10 < 10" by simp
  then have "(48 + n mod 10) mod 256 = 48 + n mod 10" by simp
  then show ?thesis by (simp add: is_digit_def)
qed

lemma of_char_digit_char: "(of_char (digit_char n) :: nat) = 48 + n mod 10"
proof -
  have "n mod 10 < 10" by simp
  then have "(48 + n mod 10) mod 256 = 48 + n mod 10" by simp
  then show ?thesis by simp
qed

lemma int_of_digits3:
  assumes "k < 1000"
  shows "int_of_digits (digits3 k) = int k"
proof -
  have "int_of_digits (digits3 k)
          = 100 * int (k div 100 mod 10) + 10 * int (k div 10 mod 10) + int (k mod 10)"
    by (simp add: int_of_digits_def digits3_def of_char_digit_char del: digit_char.simps)
  also have "\<dots> = int (100 * (k div 100 mod 10) + 10 * (k div 10 mod 10) + k mod 10)"
    by simp
  also have "100 * (k div 100 mod 10) + 10 * (k div 10 mod 10) + k mod 10 = k"
  proof -
    define q where "q = k div 10"
    have h: "k div 100 = q div 10"
      unfolding q_def by (simp add: div_mult2_eq [symmetric])
    from assms have "k div 100 < 10" by simp
    then have m: "k div 100 mod 10 = q div 10" by (simp add: h)
    have "k = 10 * q + k mod 10" unfolding q_def by simp
    moreover have "q = 10 * (q div 10) + q mod 10" by simp
    ultimately have "k = 100 * (q div 10) + 10 * (q mod 10) + k mod 10" by linarith
    then show ?thesis unfolding m q_def [symmetric] by simp
  qed
  finally show ?thesis .
qed

lemma finditer_match:
  assumes "match_at s = Some (url, ds, rest)"
  shows "finditer s = (url, ds) # finditer rest"
proof (cases s)
  case Nil
  with assms show ?thesis by (simp add: match_at_def)
next
  case (Cons c cs)
  with assms show ?thesis by (subst finditer.simps) simp
qed

lemma finditer_no_match:
  assumes "match_at (c # cs) = None"
  shows "finditer (c # cs) = finditer cs"
  using assms by (subst finditer.simps) simp

lemma match_at_example_link:
  "match_at (example_link k @ CHR '' '' # rest) = Some (example_link k, digits3 k, CHR '' '' # rest)"
  using is_digit_digit_char [of "k div 100"] is_digit_digit_char [of "k div 10"]
    is_digit_digit_char [of k]
  by (simp add: match_at_def example_link_def digits3_def is_quote_def del: digit_char.simps)

lemma finditer_space: "finditer (CHR '' '' # rest) = finditer rest"
  by (rule finditer_no_match) (simp add: match_at_def)

lemma finditer_example_page:
  "finditer (example_page ks) = map (\<lambda>k. (example_link k, digits3 k)) ks"
proof (induction ks)
  case Nil
  show ?case by (simp add: example_page_def finditer.simps)
next
  case (Cons k ks)
  have pg: "example_page (k # ks) = example_link k @ CHR '' '' # example_page ks"
    by (simp add: example_page_def)
  have "finditer (example_link k @ CHR '' '' # example_page ks)
          = (example_link k, digits3 k) # finditer (CHR '' '' # example_page ks)"
    by (rule finditer_match) (rule match_at_example_link)
  then show ?case
    by (simp add: pg finditer_space Cons.IH)
qed

lemma foldl_record_fresh:
  assumes "distinct (map match_key ms)" and "match_key ` set ms \<inter> fst ` set al = {}"
  shows "foldl record_match al ms = al @ map (\<lambda>m. (match_key m, fst m)) ms"
  using assms
proof (induction ms arbitrary: al)
  case Nil
  show ?case by simp
next
  case (Cons m ms)
  from Cons.prems have fresh: "match_key m \<notin> fst ` set al" by auto
  have upd: "record_match al m = al @ [(match_key m, fst m)]"
    using fresh by (induction al) (auto simp: record_match_def)
  from Cons.prems have "distinct (map match_key ms)"
    and "match_key ` set ms \<inter> fst ` set (al @ [(match_key m, fst m)]) = {}"
    by auto
  from Cons.IH [OF this] show ?case
    by (simp add: upd)
qed

lemma extract_urls_example_page:
  assumes "distinct ks" and "\<forall>k \<in> set ks. k < 1000"
  shows "extract_urls (example_page ks) = map (\<lambda>k. (int k, example_link k)) ks"
proof -
  let ?ms = "map (\<lambda>k. (example_link k, digits3 k)) ks"
  have keys: "map match_key ?ms = map int ks"
    using assms(2) by (simp add: match_key_def int_of_digits3)
  have "distinct (map match_key ?ms)"
    using assms(1) by (simp only: keys) (simp add: distinct_map inj_on_def)
  then have "foldl record_match [] ?ms = [] @ map (\<lambda>m. (match_key m, fst m)) ?ms"
    by (rule foldl_record_fresh) simp
  also have "map (\<lambda>m. (match_key m, fst m)) ?ms = map (\<lambda>k. (int k, example_link k)) ks"
    using assms(2) by (simp add: match_key_def int_of_digits3)
  finally show ?thesis
    by (simp add: extract_urls_foldl finditer_example_page)
qed

lemma Request_example_link: "Request (example_link k) = Returned ()"
proof -
  have "example_link k = ''https://'' @ (''h/'' @ digits3 k @ ''.mp3'')"
    by (simp add: example_link_def)
  moreover have "Request (''https://'' @ (''h/'' @ digits3 k @ ''.mp3'')) = Returned ()"
    by (rule Request_https) (simp_all add: is_space_def)
  ultimately show ?thesis by simp
qed

lemma match_tail_digits:
  "match_tail s = Some (ds, rest) \<Longrightarrow> length ds = 3 \<and> (\<forall>c \<in> set ds. is_digit c)"
  by (induction s rule: match_tail.induct) (auto split: if_splits)

lemma match_lazy_digits:
  "match_lazy acc s = Some (acc', ds, rest) \<Longrightarrow>
     length ds = 3 \<and> (\<forall>c \<in> set ds. is_digit c)
     \<and> ((\<forall>c \<in> set acc. \<not> is_quote c) \<longrightarrow> (\<forall>c \<in> set acc'. \<not> is_quote c))"
proof (induction acc s rule: match_lazy.induct)
  case (1 acc s)
  show ?case
  proof (cases "match_tail s")
    case (Some p)
    obtain ds' rest' where p: "p = (ds', rest')" by (cases p)
    from "1.prems" Some p have eq: "acc' = acc" "ds' = ds" "rest' = rest"
      by simp_all
    from match_tail_digits [of s ds rest] Some p eq show ?thesis
      by simp
  next
    case None
    with "1.prems" obtain c cs where s: "s = c # cs" and nq: "\<not> is_quote c"
      and rec: "match_lazy (acc @ [c]) cs = Some (acc', ds, rest)"
      by (cases s) (auto split: if_splits)
    from "1.IH" [OF None s nq rec] nq show ?thesis
      by simp
  qed
qed

lemma match_at_digits:
  assumes "match_at s = Some (url, ds, rest)"
  shows "length ds = 3" and "\<forall>c \<in> set ds. is_digit c"
    and "\<exists>acc. acc \<noteq> [] \<and> (\<forall>c \<in> set acc. \<not> is_quote c)
           \<and> url = ''https://'' @ acc @ ''/'' @ ds @ ''.mp3''"
proof -
  from assms obtain t where t: "strip_prefix ''https://'' s = Some t"
    by (auto simp: match_at_def split: option.splits)
  from assms t obtain c cs where tc: "t = c # cs"
    by (cases t) (auto simp: match_at_def)
  from assms t tc have nq: "\<not> is_quote c"
    by (auto simp: match_at_def split: if_splits)
  from assms t tc obtain acc where
    lz: "match_lazy [c] cs = Some (acc, ds, rest)"
    and url: "url = ''https://'' @ acc @ ''/'' @ ds @ ''.mp3''"
    by (auto simp: match_at_def split: if_splits option.splits)
  from match_lazy_digits [OF lz] nq
  have d: "length ds = 3" "\<forall>c \<in> set ds. is_digit c" and q: "\<forall>c \<in> set acc. \<not> is_quote c"
    by simp_all
  from match_lazy_shape [OF lz] have "acc \<noteq> []" by auto
  with d q url show "length ds = 3" and "\<forall>c \<in> set ds. is_digit c"
    and "\<exists>acc. acc \<noteq> [] \<and> (\<forall>c \<in> set acc. \<not> is_quote c)
           \<and> url = ''https://'' @ acc @ ''/'' @ ds @ ''.mp3''"
    by blast+
qed


lemma finditer_shape:
  "(url, ds) \<in> set (finditer s) \<Longrightarrow>
     length ds = 3 \<and> (\<forall>c \<in> set ds. is_digit c)
     \<and> (\<exists>acc. acc \<noteq> [] \<and> (\<forall>c \<in> set acc. \<not> is_quote c)
           \<and> url = ''https://'' @ acc @ ''/'' @ ds @ ''.mp3'')"
proof (induction s rule: finditer.induct)
  case (1 s)
  from "1.prems" obtain c cs where s: "s = c # cs"
    by (cases s) (simp_all add: finditer.simps)
  show ?case
  proof (cases "match_at s")
    case (Some p)
    obtain u d r where p: "p = (u, d, r)" by (cases p)
    from s Some p have f: "finditer s = (u, d) # finditer r"
      by (simp add: finditer_match)
    show ?thesis
    proof (cases "(url, ds) = (u, d)")
      case True
      with Some p have "match_at s = Some (url, ds, r)" by simp
      from match_at_digits [OF this] show ?thesis by blast
    next
      case False
      with f "1.prems" have "(url, ds) \<in> set (finditer r)" by auto
      from "1.IH"(2) [OF s Some p [symmetric] refl this] show ?thesis .
    qed
  next
    case None
    with s "1.prems" have "(url, ds) \<in> set (finditer cs)"
      by (simp add: finditer_no_match)
    from "1.IH"(1) [OF s None this] show ?thesis .
  qed
qed

lemma Request_match:
  assumes "(u, ds) \<in> set (finditer html)"
  shows "Request u = Returned ()"
proof -
  from finditer_shape [OF assms] obtain acc where
    u: "u = ''https://'' @ (acc @ ''/'' @ ds @ ''.mp3'')"
    by auto
  have "Request (''https://'' @ (acc @ ''/'' @ ds @ ''.mp3'')) = Returned ()"
    by (rule Request_https) (simp_all add: is_space_def)
  with u show ?thesis by simp
qed

lemma record_match_set: "set (record_match al m) \<subseteq> insert (match_key m, fst m) (set al)"
  unfolding record_match_def by (induction al) auto

lemma foldl_record_set:
  "set (foldl record_match al ms) \<subseteq> set al \<union> (\<lambda>m. (match_key m, fst m)) ` set ms"
proof (induction ms arbitrary: al)
  case Nil
  show ?case by simp
next
  case (Cons m ms)
  from Cons.IH [of "record_match al m"] record_match_set [of al m]
  show ?case by auto
qed

lemma extract_urls_from_match:
  assumes "map_of (extract_urls html) k = Some u"
  shows "\<exists>ds. (u, ds) \<in> set (finditer html) \<and> k = int_of_digits ds"
proof -
  from assms have "(k, u) \<in> set (extract_urls html)" by (rule map_of_SomeD)
  with foldl_record_set [of "[]" "finditer html"]
  have "(k, u) \<in> (\<lambda>m. (match_key m, fst m)) ` set (finditer html)"
    by (auto simp: extract_urls_foldl)
  then obtain m where m: "m \<in> set (finditer html)" "k = match_key m" "u = fst m" by auto
  then show ?thesis
    by (intro exI [of _ "snd m"]) (simp add: match_key_def)
qed

lemma digits_of_url:
  assumes "(u, ds) \<in> set (finditer html)"
  shows "ds = take 3 (drop (length u - 7) u)"
proof -
  from finditer_shape [OF assms] obtain acc where l: "length ds = 3"
    and u: "u = ''https://'' @ acc @ ''/'' @ ds @ ''.mp3''"
    by blast
  have "u = (''https://'' @ acc @ ''/'') @ ds @ ''.mp3''" using u by simp
  moreover have "length u - 7 = length (''https://'' @ acc @ ''/'')" using u l by simp
  ultimately have "drop (length u - 7) u = ds @ ''.mp3''"
    by (metis append_eq_conv_conj)
  with l show ?thesis by simp
qed

lemma extract_urls_key_of_url:
  assumes "map_of (extract_urls html) k = Some u" and "map_of (extract_urls html) k' = Some u"
  shows "k = k'"
proof -
  from extract_urls_from_match [OF assms(1)] obtain ds
    where d: "(u, ds) \<in> set (finditer html)" "k = int_of_digits ds" by blast
  from extract_urls_from_match [OF assms(2)] obtain ds'
    where d': "(u, ds') \<in> set (finditer html)" "k' = int_of_digits ds'" by blast
  from digits_of_url [OF d(1)] digits_of_url [OF d'(1)] d(2) d'(2) show ?thesis by simp
qed

lemma discover_urls_Returned:
  assumes "discover_urls srv w = (Returned um, w1)"
  shows "\<exists>body. um = extract_urls body"
  using assms
  by (cases "srv (length (requests w)) RECITER_PAGE")
     (auto simp: discover_urls_unfold urlopen_def Let_def split: option.splits if_splits)









section \<open>Claims about \<^verbatim>\<open>download_file\<close>\<close>

text \<open>
  An example download: surah 1 from the example host into the audio directory. The
  network of \<open>srv_reset\<close> times out twice inside \<^verbatim>\<open>urlopen\<close> (a \<^verbatim>\<open>URLError\<close>), and the
  third time answers 200 and breaks the connection after one chunk of the body, which
  \<^verbatim>\<open>read\<close> reports as a \<^verbatim>\<open>ConnectionResetError\<close>, an \<^verbatim>\<open>OSError\<close> that is not a
  \<^verbatim>\<open>URLError\<close>.
\<close>

definition example_url :: string where
  "example_url = ''https://h/001.mp3''"

definition example_destination :: path where
  "example_destination = path_join AUDIO_DIR ''001.mp3''"

definition srv_reset :: server where
  "srv_reset k url =
     (if k < 2 then Refused (Exn URLError ''<urlopen error timed out>'')
      else Answer 200 (replicate CHUNK_SIZE (CHR ''a''))
             (Some (Exn ConnectionResetError ''[Errno 104] Connection reset by peer'')))"

lemma Request_example_url: "Request example_url = Returned ()"
proof -
  have "Request (''https://'' @ ''h/001.mp3'') = Returned ()"
    by (rule Request_https) (simp_all add: is_space_def)
  then show ?thesis by (simp add: example_url_def)
qed

text \<open>
  C2. The claim fails of the code at this input: all three attempts fail with a network
  error, yet \<^verbatim>\<open>download_file\<close> ends with the \<^verbatim>\<open>ConnectionResetError\<close> of the third
  attempt and not with the terminal \<^verbatim>\<open>RuntimeError\<close>, and the chunk written by the third
  attempt is left in the destination. The handler, which deletes the partial file and
  escalates, is never entered for this exception.
\<close>

theorem download_file_leaves_partial_file:
  "fst (download_file srv_reset example_url example_destination w0)
     = Raised (Exn ConnectionResetError ''[Errno 104] Connection reset by peer'')
   \<and> requests (snd (download_file srv_reset example_url example_destination w0))
       = [example_url, example_url, example_url]
   \<and> files (snd (download_file srv_reset example_url example_destination w0)) example_destination
       = Some (replicate CHUNK_SIZE (CHR ''a''))"
proof -
  let ?e = "Exn ConnectionResetError ''[Errno 104] Connection reset by peer''"
  let ?d = example_destination
  note ok = Request_example_url
  have ne: "(1::nat) \<noteq> RETRY_LIMIT" "(2::nat) \<noteq> RETRY_LIMIT"
    by (simp_all add: RETRY_LIMIT_def)
  have f1: "reply_fails (srv_reset (length (requests w0)) example_url)"
    by (simp add: srv_reset_def reply_fails_def w0_def)
  from download_loop_retry [where srv = srv_reset and w = w0 and url = example_url and d = ?d
      and rest = "[2, RETRY_LIMIT]", OF ok f1 ne(1)] obtain wa
    where a: "download_loop srv_reset example_url ?d [1, 2, RETRY_LIMIT] w0
                = download_loop srv_reset example_url ?d [2, RETRY_LIMIT] wa"
      and ra: "requests wa = requests w0 @ [example_url]"
    by blast
  have f2: "reply_fails (srv_reset (length (requests wa)) example_url)"
    by (simp add: ra srv_reset_def reply_fails_def w0_def)
  from download_loop_retry [where srv = srv_reset and w = wa and url = example_url and d = ?d
      and rest = "[RETRY_LIMIT]", OF ok f2 ne(2)] obtain wb
    where b: "download_loop srv_reset example_url ?d [2, RETRY_LIMIT] wa
                = download_loop srv_reset example_url ?d [RETRY_LIMIT] wb"
      and rb: "requests wb = requests wa @ [example_url]"
    by blast
  have "srv_reset (length (requests wb)) example_url
          = Answer 200 (replicate CHUNK_SIZE (CHR ''a'')) (Some ?e)"
    by (simp add: ra rb srv_reset_def w0_def)
  from attempt_download_read_fault [where srv = srv_reset and w = wb and url = example_url
      and d = ?d, OF ok this]
  have att: "attempt_download srv_reset example_url ?d wb =
      (Raised ?e, write_file ?d (replicate CHUNK_SIZE (CHR ''a''))
                     (write_file ?d [] (wb\<lparr>requests := requests wb @ [example_url]\<rparr>)))" .
  have c: "download_loop srv_reset example_url ?d [RETRY_LIMIT] wb =
      (Raised ?e, write_file ?d (replicate CHUNK_SIZE (CHR ''a''))
                     (write_file ?d [] (wb\<lparr>requests := requests wb @ [example_url]\<rparr>)))"
    by (simp add: att)
  have df: "download_file srv_reset example_url ?d w0 =
      (Raised ?e, write_file ?d (replicate CHUNK_SIZE (CHR ''a''))
                     (write_file ?d [] (wb\<lparr>requests := requests wb @ [example_url]\<rparr>)))"
    by (simp only: download_file_def attempts_list a b c)
  show ?thesis
    unfolding df by (simp add: write_file_def ra rb w0_def)
qed







section \<open>What a download and the loop of \<^verbatim>\<open>main\<close> change\<close>

lemma download_loop_frame:
  "download_loop srv url d as w = (r, w') \<Longrightarrow>
     stdout w' = stdout w \<and> (\<forall>p. p \<noteq> d \<longrightarrow> files w' p = files w p)"
proof (induction as arbitrary: w)
  case Nil
  then show ?case by simp
next
  case (Cons a rest)
  obtain r1 w1 where att: "attempt_download srv url d w = (r1, w1)"
    by (cases "attempt_download srv url d w")
  have eff: "stdout w1 = stdout w" "\<And>p. p \<noteq> d \<Longrightarrow> files w1 p = files w p"
    using attempt_download_effects(3,5) [OF att] by simp_all
  let ?w2 = "if path_exists d w1 then unlink d w1 else w1"
  have w2: "stdout ?w2 = stdout w" "\<And>p. p \<noteq> d \<Longrightarrow> files ?w2 p = files w p"
    using eff by (simp_all add: unlink_def)
  show ?case
  proof (cases r1)
    case (Returned u)
    with att Cons.prems eff show ?thesis by auto
  next
    case (Raised exc)
    show ?thesis
    proof (cases "retryable exc \<and> a \<noteq> RETRY_LIMIT")
      case False
      with att Raised Cons.prems eff w2 show ?thesis
        by (auto simp: Let_def split: if_splits)
    next
      case True
      let ?w4 = "time_sleep (2 * a) (print_err (retry_message a url exc (2 * a)) ?w2)"
      have w4: "stdout ?w4 = stdout w" "\<And>p. p \<noteq> d \<Longrightarrow> files ?w4 p = files w p"
        using w2 by (simp_all add: time_sleep_def print_err_def)
      from att Raised True Cons.prems
      have "download_loop srv url d rest ?w4 = (r, w')" by (simp add: Let_def)
      from Cons.IH [OF this] w4 show ?thesis by simp
    qed
  qed
qed

lemma download_loop_returned:
  "download_loop srv url d as w = (Returned u, w') \<Longrightarrow> as \<noteq> [] \<Longrightarrow>
     last as = RETRY_LIMIT \<Longrightarrow> path_exists d w'"
proof (induction as arbitrary: w)
  case Nil
  then show ?case by simp
next
  case (Cons a rest)
  obtain r1 w1 where att: "attempt_download srv url d w = (r1, w1)"
    by (cases "attempt_download srv url d w")
  show ?case
  proof (cases r1)
    case (Returned u1)
    with att Cons.prems(1) have "w' = w1" by simp
    with attempt_download_returned [of srv url d w u1 w1] att Returned show ?thesis by simp
  next
    case (Raised exc)
    let ?w2 = "if path_exists d w1 then unlink d w1 else w1"
    let ?w4 = "time_sleep (2 * a) (print_err (retry_message a url exc (2 * a)) ?w2)"
    from att Raised Cons.prems(1) have c: "retryable exc" "a \<noteq> RETRY_LIMIT"
      and rec: "download_loop srv url d rest ?w4 = (Returned u, w')"
      by (auto simp: Let_def split: if_splits)
    from c(2) Cons.prems(3) have "rest \<noteq> []" "last rest = RETRY_LIMIT"
      by (auto split: if_splits)
    from Cons.IH [OF rec this] show ?thesis .
  qed
qed

lemma download_file_frame:
  assumes "download_file srv url d w = (r, w')"
  shows "stdout w' = stdout w" and "p \<noteq> d \<Longrightarrow> files w' p = files w p"
    and "\<exists>k. requests w' = requests w @ replicate k url"
proof -
  from assms have l: "download_loop srv url d [1, 2, RETRY_LIMIT] w = (r, w')"
    by (simp only: download_file_def attempts_list)
  from download_loop_frame [OF l]
  show "stdout w' = stdout w" and "p \<noteq> d \<Longrightarrow> files w' p = files w p"
    by simp_all
  from download_loop_requests [of srv url d "[1, 2, RETRY_LIMIT]" w] l
  show "\<exists>k. requests w' = requests w @ replicate k url"
    by simp
qed

lemma download_file_returned:
  assumes "download_file srv url d w = (Returned u, w')"
  shows "path_exists d w'"
proof -
  from assms have l: "download_loop srv url d [1, 2, RETRY_LIMIT] w = (Returned u, w')"
    by (simp only: download_file_def attempts_list)
  from download_loop_returned [OF l] show ?thesis by simp
qed


text \<open>
  The condition of the comprehension of line 98: the destination of the entry does not
  exist.
\<close>

definition is_missing :: "world \<Rightarrow> surah \<Rightarrow> bool" where
  "is_missing w entry =
     (case dest_path (filename entry) of
        Returned p \<Rightarrow> \<not> path_exists p w
      | Raised e \<Rightarrow> False)"

lemma dest_path_Returned: "dest_path j = Returned p \<Longrightarrow> \<exists>f. j = JStr f \<and> p = path_join AUDIO_DIR f"
  by (cases j) simp_all

lemma missing_entries_filter:
  "missing_entries w surahs = Returned ms \<Longrightarrow>
     ms = filter (is_missing w) surahs \<and> (\<forall>e \<in> set surahs. \<exists>f. filename e = JStr f)"
proof (induction surahs arbitrary: ms)
  case Nil
  then show ?case by simp
next
  case (Cons entry surahs)
  from Cons.prems obtain p rest where p: "dest_path (filename entry) = Returned p"
    and r: "missing_entries w surahs = Returned rest"
    and ms: "ms = (if path_exists p w then rest else entry # rest)"
    by (auto split: result.splits)
  from dest_path_Returned [OF p] obtain f where f: "filename entry = JStr f" by blast
  from Cons.IH [OF r] p ms f show ?case
    by (simp add: is_missing_def)
qed

lemma missing_entries_all_present:
  "\<forall>e \<in> set surahs. \<exists>f. filename e = JStr f \<and> path_exists (path_join AUDIO_DIR f) w \<Longrightarrow>
     missing_entries w surahs = Returned []"
  by (induction surahs) auto

lemma missing_entries_files:
  "files w = files w' \<Longrightarrow> missing_entries w surahs = missing_entries w' surahs"
  by (induction surahs) (simp_all add: path_exists_def split: result.splits)

lemma download_missing_append:
  "download_missing srv um t i (pre @ post) w =
     (case download_missing srv um t i pre w of
        (Returned None, w1) \<Rightarrow> download_missing srv um t (i + length pre) post w1
      | (Returned (Some c), w1) \<Rightarrow> (Returned (Some c), w1)
      | (Raised e, w1) \<Rightarrow> (Raised e, w1))"
proof (induction pre arbitrary: i w)
  case Nil
  show ?case by simp
next
  case (Cons entry pre)
  show ?case
  proof (cases "map_of um (number entry)")
    case None
    then show ?thesis by simp
  next
    case (Some url)
    show ?thesis
    proof (cases "filename entry")
      case (JStr f)
      let ?w1 = "print_out (progress_message i t f url) w"
      obtain r w2 where d: "download_file srv url (path_join AUDIO_DIR f) ?w1 = (r, w2)"
        by (cases "download_file srv url (path_join AUDIO_DIR f) ?w1")
      show ?thesis
      proof (cases r)
        case (Returned u)
        with Some JStr d Cons.IH [of "Suc i" w2] show ?thesis
          by (simp add: Let_def split: prod.splits result.splits option.splits)
      next
        case (Raised exc)
        with Some JStr d show ?thesis
          by (simp add: Let_def)
      qed
    qed (simp_all add: Some)
  qed
qed

lemma download_missing_frame:
  "download_missing srv um t i ms w = (r, w') \<Longrightarrow>
     (\<exists>ds. requests w' = requests w @ ds
        \<and> set ds \<subseteq> {u. \<exists>e \<in> set ms. map_of um (number e) = Some u})
     \<and> (\<forall>p. (\<forall>e \<in> set ms. \<forall>f. filename e = JStr f \<longrightarrow> p \<noteq> path_join AUDIO_DIR f)
            \<longrightarrow> files w' p = files w p)"
proof (induction ms arbitrary: i w)
  case Nil
  then show ?case by simp
next
  case (Cons entry ms)
  show ?case
  proof (cases "map_of um (number entry)")
    case None
    with Cons.prems show ?thesis by (auto simp: print_err_def)
  next
    case (Some url)
    show ?thesis
    proof (cases "filename entry")
      case (JStr f)
      let ?d = "path_join AUDIO_DIR f"
      let ?w1 = "print_out (progress_message i t f url) w"
      obtain r2 w2 where d: "download_file srv url ?d ?w1 = (r2, w2)"
        by (cases "download_file srv url ?d ?w1")
      from download_file_frame(3) [OF d] obtain k
        where rq: "requests w2 = requests w @ replicate k url"
        by (auto simp: print_out_def)
      have fl: "\<And>p. p \<noteq> ?d \<Longrightarrow> files w2 p = files w p"
        using download_file_frame(2) [OF d] by (simp add: print_out_def)
      show ?thesis
      proof (cases r2)
        case (Raised exc)
        with Some JStr d Cons.prems have "requests w' = requests w2" "files w' = files w2"
          by (auto simp: Let_def print_err_def split: if_splits)
        with rq fl Some JStr show ?thesis
          by (intro conjI exI [of _ "replicate k url"]) auto
      next
        case (Returned u)
        with Some JStr d Cons.prems
        have rec: "download_missing srv um t (i + 1) ms w2 = (r, w')"
          by (simp add: Let_def)
        from Cons.IH [OF rec] obtain ds where
          ds: "requests w' = requests w2 @ ds"
            "set ds \<subseteq> {u. \<exists>e \<in> set ms. map_of um (number e) = Some u}"
          and fr: "\<forall>p. (\<forall>e \<in> set ms. \<forall>f. filename e = JStr f \<longrightarrow> p \<noteq> path_join AUDIO_DIR f)
                     \<longrightarrow> files w' p = files w2 p"
          by blast
        have "requests w' = requests w @ (replicate k url @ ds)"
          using ds(1) rq by simp
        moreover have "set (replicate k url @ ds)
                         \<subseteq> {u. \<exists>e \<in> set (entry # ms). map_of um (number e) = Some u}"
          using ds(2) Some by auto
        moreover have "\<forall>p. (\<forall>e \<in> set (entry # ms). \<forall>f. filename e = JStr f
                          \<longrightarrow> p \<noteq> path_join AUDIO_DIR f) \<longrightarrow> files w' p = files w p"
          using fr fl JStr by simp
        ultimately show ?thesis by blast
      qed
    qed (use Some Cons.prems in auto)
  qed
qed

lemma download_missing_done:
  "download_missing srv um t i ms w = (Returned None, w') \<Longrightarrow>
     (\<forall>e \<in> set ms. \<exists>f. filename e = JStr f \<and> path_exists (path_join AUDIO_DIR f) w')
     \<and> (\<forall>p. path_exists p w \<longrightarrow> path_exists p w')"
proof (induction ms arbitrary: i w)
  case Nil
  then show ?case by simp
next
  case (Cons entry ms)
  from Cons.prems obtain url where url: "map_of um (number entry) = Some url"
    by (cases "map_of um (number entry)") auto
  from Cons.prems url obtain f where f: "filename entry = JStr f"
    by (cases "filename entry") auto
  let ?d = "path_join AUDIO_DIR f"
  let ?w1 = "print_out (progress_message i t f url) w"
  obtain r2 w2 where d: "download_file srv url ?d ?w1 = (r2, w2)"
    by (cases "download_file srv url ?d ?w1")
  from Cons.prems url f d obtain u where r2: "r2 = Returned u"
    and rec: "download_missing srv um t (i + 1) ms w2 = (Returned None, w')"
    by (cases r2) (auto simp: Let_def split: if_splits)
  from download_file_returned [of srv url ?d ?w1 u w2] d r2 have ex: "path_exists ?d w2"
    by simp
  have keep: "\<And>p. path_exists p w \<Longrightarrow> path_exists p w2"
  proof -
    fix p assume p: "path_exists p w"
    show "path_exists p w2"
    proof (cases "p = ?d")
      case True
      with ex show ?thesis by simp
    next
      case False
      from download_file_frame(2) [OF d False] p show ?thesis
        by (simp add: path_exists_def print_out_def)
    qed
  qed
  from Cons.IH [OF rec] ex keep f show ?case
    by auto
qed

section \<open>Properties of \<^verbatim>\<open>main\<close>\<close>

lemma extract_urls_card: "card (fst ` set (extract_urls html)) = length (extract_urls html)"
  by (simp add: extract_urls_length extract_urls_keys)

lemma discover_urls_example:
  assumes "srv (length (requests w)) RECITER_PAGE = Answer st (example_page ks) None"
    and "distinct ks" and "\<forall>k \<in> set ks. k < 1000" and "114 \<le> length ks"
  shows "discover_urls srv w =
           (Returned (map (\<lambda>k. (int k, example_link k)) ks),
            w\<lparr>requests := requests w @ [RECITER_PAGE]\<rparr>)"
  using assms(1,4)
  by (simp add: discover_urls_unfold urlopen_def Let_def extract_urls_example_page [OF assms(2,3)])

text \<open>
  C1. When the manifest has loaded and the reciter page arrives whole but yields fewer than
  114 distinct numeric keys, \<^verbatim>\<open>discover_urls\<close> raises, and \<^verbatim>\<open>main\<close> returns 1 with
  the diagnostic on stderr; the only request of the run is the one for the page, and
  nothing else of the world has changed (no file, no sleep).
\<close>

theorem main_too_few_links:
  assumes "load_surahs ev = Returned surahs"
    and "net ev (length (requests w)) RECITER_PAGE = Answer st body None"
    and "card (fst ` set (extract_urls body)) < 114"
  shows "fst (discover_urls (net ev) w)
           = Raised (Exn RuntimeError
               (''Expected at least 114 MP3 links on the reciter page; found ''
                @ str_nat (card (fst ` set (extract_urls body))) @ ''.''))
         \<and> main ev w =
             (Returned 1,
              w\<lparr>requests := requests w @ [RECITER_PAGE],
                stderr := stderr w @
                  [''Unable to discover MP3 URLs: ''
                   @ ''Expected at least 114 MP3 links on the reciter page; found ''
                   @ str_nat (card (fst ` set (extract_urls body))) @ ''.'']\<rparr>)"
proof -
  from assms(3) have c: "card (match_key ` set (finditer body)) < 114"
    by (simp add: extract_urls_keys)
  have n: "card (fst ` set (extract_urls body)) = card (match_key ` set (finditer body))"
    by (simp add: extract_urls_keys)
  note d = discover_urls_too_few [where srv = "net ev" and w = w and st = st and body = body,
      OF assms(2) c]
  from d show ?thesis
    by (simp add: main_def assms(1) n print_err_def)
qed

text \<open>Example environments: a manifest of one surah, and a page of three links.\<close>

definition one_surah :: json where
  "one_surah = JArr [JObj [(''number'', JInt 1), (''audioFile'', JStr ''001.mp3'')]]"

definition no_int :: "string \<Rightarrow> int result" where
  "no_int s = Raised (Exn ValueError ''invalid literal for int()'')"

lemma load_one_surah:
  "manifest ev = Returned one_surah \<Longrightarrow>
     load_surahs ev = Returned [\<lparr>number = 1, filename = JStr ''001.mp3''\<rparr>]"
  by (simp add: load_surahs_def one_surah_def)

definition env_few :: env where
  "env_few = \<lparr>net = (\<lambda>k url. Answer 200 (example_page [1, 2, 3]) None),
               manifest = Returned one_surah, int_str = no_int\<rparr>"

theorem main_too_few_links_witness:
  "load_surahs env_few = Returned [\<lparr>number = 1, filename = JStr ''001.mp3''\<rparr>]
   \<and> net env_few (length (requests w0)) RECITER_PAGE = Answer 200 (example_page [1, 2, 3]) None
   \<and> card (fst ` set (extract_urls (example_page [1, 2, 3]))) < 114
   \<and> main env_few w0 =
        (Returned 1,
         w0\<lparr>requests := [RECITER_PAGE],
            stderr := [''Unable to discover MP3 URLs: Expected at least 114 MP3 links on the reciter page; found 3.'']\<rparr>)"
proof -
  have h1: "load_surahs env_few = Returned [\<lparr>number = 1, filename = JStr ''001.mp3''\<rparr>]"
    by (rule load_one_surah) (simp add: env_few_def)
  have h2: "net env_few (length (requests w0)) RECITER_PAGE
              = Answer 200 (example_page [1, 2, 3]) None"
    by (simp add: env_few_def)
  have ex: "extract_urls (example_page [1, 2, 3]) = map (\<lambda>k. (int k, example_link k)) [1, 2, 3]"
    by (rule extract_urls_example_page) simp_all
  have n: "card (fst ` set (extract_urls (example_page [1, 2, 3]))) = 3"
    by (simp only: extract_urls_card ex) simp
  have h3: "card (fst ` set (extract_urls (example_page [1, 2, 3]))) < 114"
    unfolding n by simp
  have s3: "str_nat 3 = ''3''" by code_simp
  note t = main_too_few_links [where ev = env_few and w = w0 and st = 200
      and body = "example_page [1, 2, 3]", OF h1 h2 h3, unfolded n s3]
  from t have "main env_few w0 =
        (Returned 1,
         w0\<lparr>requests := [RECITER_PAGE],
            stderr := [''Unable to discover MP3 URLs: Expected at least 114 MP3 links on the reciter page; found 3.'']\<rparr>)"
    by (simp add: w0_def)
  with h1 h2 h3 show ?thesis by blast
qed


text \<open>
  C9. An exception of \<^verbatim>\<open>load_surahs\<close> leaves \<^verbatim>\<open>main\<close> as it is, with the world
  untouched; an exception of \<^verbatim>\<open>discover_urls\<close>, of whatever class, is turned into
  exit code 1 with the diagnostic on stderr.
\<close>

theorem main_error_tiers:
  "(load_surahs ev = Raised e \<longrightarrow> main ev w = (Raised e, w))
   \<and> (load_surahs ev = Returned surahs \<and> fst (discover_urls (net ev) w) = Raised exc \<longrightarrow>
        main ev w =
          (Returned 1,
           w\<lparr>requests := requests w @ [RECITER_PAGE],
             stderr := stderr w @ [''Unable to discover MP3 URLs: '' @ msg exc]\<rparr>))"
proof (intro conjI impI)
  assume "load_surahs ev = Raised e"
  then show "main ev w = (Raised e, w)"
    by (simp add: main_def)
next
  assume a: "load_surahs ev = Returned surahs \<and> fst (discover_urls (net ev) w) = Raised exc"
  obtain r w1 where d: "discover_urls (net ev) w = (r, w1)"
    by (cases "discover_urls (net ev) w")
  from discover_urls_world [of "net ev" w] d
  have w1: "w1 = w\<lparr>requests := requests w @ [RECITER_PAGE]\<rparr>" by simp
  from a d have r: "r = Raised exc" by simp
  from a d r w1 show "main ev w =
          (Returned 1,
           w\<lparr>requests := requests w @ [RECITER_PAGE],
             stderr := stderr w @ [''Unable to discover MP3 URLs: '' @ msg exc]\<rparr>)"
    by (simp add: main_def print_err_def)
qed

text \<open>
  The witness: a manifest whose entry lacks \<^verbatim>\<open>audioFile\<close> (a \<^verbatim>\<open>KeyError\<close> in
  \<^verbatim>\<open>load_surahs\<close>), and a good manifest with the network down.
\<close>

definition env_bad_manifest :: env where
  "env_bad_manifest =
     \<lparr>net = (\<lambda>k url. Answer 200 [] None),
      manifest = Returned (JArr [JObj [(''number'', JInt 1)]]),
      int_str = no_int\<rparr>"

definition env_offline :: env where
  "env_offline =
     \<lparr>net = (\<lambda>k url. Refused (Exn URLError ''<urlopen error timed out>'')),
      manifest = Returned one_surah, int_str = no_int\<rparr>"

theorem main_error_tiers_witness:
  "load_surahs env_bad_manifest = Raised (Exn KeyError ([CHR 0x27] @ ''audioFile'' @ [CHR 0x27]))
   \<and> main env_bad_manifest w0 = (Raised (Exn KeyError ([CHR 0x27] @ ''audioFile'' @ [CHR 0x27])), w0)
   \<and> load_surahs env_offline = Returned [\<lparr>number = 1, filename = JStr ''001.mp3''\<rparr>]
   \<and> fst (discover_urls (net env_offline) w0) = Raised (Exn URLError ''<urlopen error timed out>'')
   \<and> main env_offline w0 =
        (Returned 1,
         w0\<lparr>requests := requests w0 @ [RECITER_PAGE],
            stderr := stderr w0 @ [''Unable to discover MP3 URLs: ''
                                   @ msg (Exn URLError ''<urlopen error timed out>'')]\<rparr>)"
proof -
  have h1: "load_surahs env_bad_manifest
              = Raised (Exn KeyError ([CHR 0x27] @ ''audioFile'' @ [CHR 0x27]))"
    by (simp add: load_surahs_def env_bad_manifest_def)
  have h2: "load_surahs env_offline = Returned [\<lparr>number = 1, filename = JStr ''001.mp3''\<rparr>]"
    by (rule load_one_surah) (simp add: env_offline_def)
  have h3: "fst (discover_urls (net env_offline) w0)
              = Raised (Exn URLError ''<urlopen error timed out>'')"
    by (simp add: discover_urls_unfold urlopen_def env_offline_def)
  note a = main_error_tiers [where ev = env_bad_manifest and w = w0
      and e = "Exn KeyError ([CHR 0x27] @ ''audioFile'' @ [CHR 0x27])", THEN conjunct1, rule_format, OF h1]
  note b = main_error_tiers [where ev = env_offline and w = w0
      and surahs = "[\<lparr>number = 1, filename = JStr ''001.mp3''\<rparr>]"
      and exc = "Exn URLError ''<urlopen error timed out>''", THEN conjunct2, rule_format,
      OF conjI [OF h2 h3]]
  from h1 a h2 h3 b show ?thesis by blast
qed

text \<open>An environment whose page has the 114 keys 0 and 2 to 114, but not 1.\<close>

definition env_gap :: env where
  "env_gap =
     \<lparr>net = (\<lambda>k url. if k = 0 then Answer 200 (example_page (0 # [2..<115])) None
                      else Refused (Exn URLError ''unreachable'')),
      manifest = Returned one_surah, int_str = no_int\<rparr>"

lemma example_keys_gap:
  "distinct (0 # [2..<115])" "\<forall>k \<in> set (0 # [2..<115]). k < 1000" "length (0 # [2..<115]) = 114"
  by simp_all

text \<open>
  C10. A page with the 114 keys 0 and 2 to 114 passes the check of \<^verbatim>\<open>discover_urls\<close>,
  yet the mapping has no URL for surah 1: with surah 1 in the manifest and its file
  missing, \<^verbatim>\<open>main\<close> returns 1 from the missing-URL branch of the loop.
\<close>

theorem discovery_passes_but_url_missing:
  "114 \<le> card (fst ` set (extract_urls (example_page (0 # [2..<115]))))
   \<and> map_of (extract_urls (example_page (0 # [2..<115]))) 1 = None
   \<and> fst (discover_urls (net env_gap) w0)
       = Returned (extract_urls (example_page (0 # [2..<115])))
   \<and> load_surahs env_gap = Returned [\<lparr>number = 1, filename = JStr ''001.mp3''\<rparr>]
   \<and> main env_gap w0 =
        (Returned 1,
         w0\<lparr>requests := [RECITER_PAGE],
            stderr := [''No download URL discovered for surah 001; skipping.''],
            stdout := [''Downloading 1 surah MP3 files to QuranMenubar/Resources/Audio''
                       @ ellipsis]\<rparr>)"
proof -
  let ?ks = "0 # [2..<115]"
  let ?um = "map (\<lambda>k. (int k, example_link k)) ?ks"
  have ex: "extract_urls (example_page ?ks) = ?um"
    by (rule extract_urls_example_page) (rule example_keys_gap)+
  have "card (fst ` set (extract_urls (example_page ?ks))) = length (extract_urls (example_page ?ks))"
    by (rule extract_urls_card)
  also have "\<dots> = 114"
    by (simp only: ex length_map example_keys_gap(3))
  finally have c: "card (fst ` set (extract_urls (example_page ?ks))) = 114" .
  have "(1::int) \<notin> fst ` set ?um" by auto
  then have none: "map_of ?um 1 = None"
    by (rule map_of_eq_None_iff [THEN iffD2])
  have d: "discover_urls (net env_gap) w0 = (Returned ?um, w0\<lparr>requests := requests w0 @ [RECITER_PAGE]\<rparr>)"
    by (rule discover_urls_example [where st = 200])
       (simp_all add: env_gap_def w0_def)
  have l: "load_surahs env_gap = Returned [\<lparr>number = 1, filename = JStr ''001.mp3''\<rparr>]"
    by (rule load_one_surah) (simp add: env_gap_def)
  have f: "fmt_03d 1 = ''001''" "str_nat (Suc 0) = ''1''" by code_simp+
  have m: "main env_gap w0 =
        (Returned 1,
         w0\<lparr>requests := [RECITER_PAGE],
            stderr := [''No download URL discovered for surah 001; skipping.''],
            stdout := [''Downloading 1 surah MP3 files to QuranMenubar/Resources/Audio''
                       @ ellipsis]\<rparr>)"
    unfolding main_def l d
    by (simp add: none path_exists_def w0_def Let_def print_err_def print_out_def
        no_url_message_def f AUDIO_DIR_def downloading_message_def del: upt_Suc)
  from c none d l m show ?thesis
    by (simp only: ex fst_conv) simp
qed

lemma main_enters_loop:
  assumes "load_surahs ev = Returned surahs"
    and "discover_urls (net ev) w = (Returned url_map, w1)"
    and "missing_entries w1 surahs = Returned ms" and "ms \<noteq> []"
  shows "main ev w =
           (case download_missing (net ev) url_map (length ms) 1 ms
                   (print_out (downloading_message (length ms)) w1) of
              (Returned None, w3) \<Rightarrow>
                (Returned 0, print_out ''Download completed successfully.'' w3)
            | (Returned (Some code), w3) \<Rightarrow> (Returned code, w3)
            | (Raised e, w3) \<Rightarrow> (Raised e, w3))"
  using assms by (simp add: main_def Let_def)

lemma download_missing_no_url:
  assumes "download_missing srv um t i pre w = (Returned None, w3)"
    and "map_of um (number entry) = None"
  shows "download_missing srv um t i (pre @ entry # post) w =
           (Returned (Some 1), print_err (no_url_message (number entry)) w3)"
  using assms by (simp add: download_missing_append)

lemma download_missing_download_fails:
  assumes "download_missing srv um t i pre w = (Returned None, w3)"
    and "map_of um (number entry) = Some url" and "filename entry = JStr f"
    and "download_file srv url (path_join AUDIO_DIR f)
           (print_out (progress_message (i + length pre) t f url) w3) = (Raised exc, w4)"
    and "isinstance exc ''RuntimeError''"
  shows "download_missing srv um t i (pre @ entry # post) w =
           (Returned (Some 1), print_err (download_error_message f exc) w4)"
  using assms by (simp add: download_missing_append Let_def)

text \<open>
  C4. The loop takes the missing entries in the order of the manifest. When the entries
  before \<open>entry\<close> have all been downloaded (the loop over them ran to its end, and their
  files exist), a failure at \<open>entry\<close> ends the run: with no URL for its number, \<^verbatim>\<open>main\<close>
  returns 1 with the diagnostic as the only change; with a URL whose three attempts all
  fail, \<^verbatim>\<open>main\<close> returns 1 with the diagnostic after exactly these three requests. In
  both cases the result does not depend on the entries after \<open>entry\<close>: none is attempted.
\<close>

theorem main_first_failure_aborts:
  assumes load: "load_surahs ev = Returned surahs"
    and disc: "discover_urls (net ev) w = (Returned url_map, w1)"
    and miss: "missing_entries w1 surahs = Returned (pre @ entry # post)"
    and pre: "download_missing (net ev) url_map (length (pre @ entry # post)) 1 pre
                (print_out (downloading_message (length (pre @ entry # post))) w1)
                = (Returned None, w3)"
  shows "pre @ entry # post = filter (is_missing w1) surahs
    \<and> (\<forall>e \<in> set pre. \<exists>f. filename e = JStr f \<and> path_exists (path_join AUDIO_DIR f) w3)
    \<and> (map_of url_map (number entry) = None \<longrightarrow>
         main ev w = (Returned 1, print_err (no_url_message (number entry)) w3))
    \<and> (\<forall>url f. map_of url_map (number entry) = Some url \<and> filename entry = JStr f
           \<and> reply_fails (net ev (length (requests w3)) url)
           \<and> reply_fails (net ev (length (requests w3) + 1) url)
           \<and> reply_fails (net ev (length (requests w3) + 2) url) \<longrightarrow>
         (\<exists>exc w4. main ev w =
              (Returned 1,
               print_err (download_error_message f
                  (Exn RuntimeError (''Failed to download '' @ url @ '': '' @ msg exc))) w4)
            \<and> requests w4 = requests w3 @ [url, url, url]))"
proof -
  let ?ms = "pre @ entry # post"
  let ?t = "length ?ms"
  let ?w2 = "print_out (downloading_message ?t) w1"
  have ne: "?ms \<noteq> []" by simp
  note m = main_enters_loop [OF load disc miss ne]
  have p1: "?ms = filter (is_missing w1) surahs"
    using missing_entries_filter [OF miss] by blast
  have p2: "\<forall>e \<in> set pre. \<exists>f. filename e = JStr f \<and> path_exists (path_join AUDIO_DIR f) w3"
    using download_missing_done [OF pre] by blast
  have p3: "map_of url_map (number entry) = None \<longrightarrow>
         main ev w = (Returned 1, print_err (no_url_message (number entry)) w3)"
  proof
    assume "map_of url_map (number entry) = None"
    from download_missing_no_url [OF pre this, of post] show
      "main ev w = (Returned 1, print_err (no_url_message (number entry)) w3)"
      by (simp only: m) simp
  qed
  have p4: "\<forall>url f. map_of url_map (number entry) = Some url \<and> filename entry = JStr f
           \<and> reply_fails (net ev (length (requests w3)) url)
           \<and> reply_fails (net ev (length (requests w3) + 1) url)
           \<and> reply_fails (net ev (length (requests w3) + 2) url) \<longrightarrow>
         (\<exists>exc w4. main ev w =
              (Returned 1,
               print_err (download_error_message f
                  (Exn RuntimeError (''Failed to download '' @ url @ '': '' @ msg exc))) w4)
            \<and> requests w4 = requests w3 @ [url, url, url])"
  proof (intro allI impI)
    fix url f
    assume a: "map_of url_map (number entry) = Some url \<and> filename entry = JStr f
           \<and> reply_fails (net ev (length (requests w3)) url)
           \<and> reply_fails (net ev (length (requests w3) + 1) url)
           \<and> reply_fails (net ev (length (requests w3) + 2) url)"
    let ?w3' = "print_out (progress_message (1 + length pre) ?t f url) w3"
    have rq: "requests ?w3' = requests w3" by (simp add: print_out_def)
    from a rq have f1: "reply_fails (net ev (length (requests ?w3')) url)"
      and f2: "reply_fails (net ev (length (requests ?w3') + 1) url)"
      and f3: "reply_fails (net ev (length (requests ?w3') + 2) url)"
      by simp_all
    from discover_urls_Returned [OF disc] obtain body where "url_map = extract_urls body"
      by blast
    with a have "map_of (extract_urls body) (number entry) = Some url" by simp
    from extract_urls_from_match [OF this] obtain ds where "(url, ds) \<in> set (finditer body)"
      by blast
    from Request_match [OF this] have ok: "Request url = Returned ()" .
    from download_file_exhausted [where srv = "net ev" and w = ?w3' and url = url
        and d = "path_join AUDIO_DIR f", OF ok f1 f2 f3]
    obtain exc w4 where d: "download_file (net ev) url (path_join AUDIO_DIR f) ?w3' =
        (Raised (Exn RuntimeError (''Failed to download '' @ url @ '': '' @ msg exc)), w4)"
      and r4: "requests w4 = requests ?w3' @ [url, url, url]"
      by blast
    from a have u: "map_of url_map (number entry) = Some url" and fn: "filename entry = JStr f"
      by simp_all
    have "isinstance (Exn RuntimeError (''Failed to download '' @ url @ '': '' @ msg exc))
            ''RuntimeError''"
      by simp
    from download_missing_download_fails [OF pre u fn d this, of post]
    have "main ev w =
            (Returned 1,
             print_err (download_error_message f
                 (Exn RuntimeError (''Failed to download '' @ url @ '': '' @ msg exc))) w4)"
      by (simp only: m) simp
    with r4 rq show "\<exists>exc w4. main ev w =
              (Returned 1,
               print_err (download_error_message f
                  (Exn RuntimeError (''Failed to download '' @ url @ '': '' @ msg exc))) w4)
            \<and> requests w4 = requests w3 @ [url, url, url]"
      by auto
  qed
  show ?thesis
    by (rule conjI [OF p1 conjI [OF p2 conjI [OF p3 p4]]])
qed


text \<open>
  The witness: a manifest of surahs 2, 1 and 3 with no file present. In the first run the
  page has no link for surah 1; in the second all three attempts for surah 1 are refused.
  In both, surah 2 has been downloaded and surah 3 is never requested.
\<close>

lemma download_file_first_try:
  assumes "Request url = Returned ()"
    and "srv (length (requests w)) url = Answer 200 body None"
  shows "download_file srv url d w =
           (Returned (), write_file d body (write_file d [] (w\<lparr>requests := requests w @ [url]\<rparr>)))"
  unfolding download_file_def attempts_list
  using attempt_download_succeeds [where srv = srv and w = w and url = url and d = d, OF assms]
  by simp

lemma map_of_example_links:
  "k \<in> set ks \<Longrightarrow> map_of (map (\<lambda>k. (int k, example_link k)) ks) (int k) = Some (example_link k)"
  by (induction ks) auto

definition three_surahs :: json where
  "three_surahs =
     JArr [JObj [(''number'', JInt 2), (''audioFile'', JStr ''002.mp3'')],
           JObj [(''number'', JInt 1), (''audioFile'', JStr ''001.mp3'')],
           JObj [(''number'', JInt 3), (''audioFile'', JStr ''003.mp3'')]]"

lemma load_three_surahs:
  "manifest ev = Returned three_surahs \<Longrightarrow>
     load_surahs ev = Returned [\<lparr>number = 2, filename = JStr ''002.mp3''\<rparr>,
                                \<lparr>number = 1, filename = JStr ''001.mp3''\<rparr>,
                                \<lparr>number = 3, filename = JStr ''003.mp3''\<rparr>]"
  by (simp add: load_surahs_def three_surahs_def)

definition env_no_url :: env where
  "env_no_url =
     \<lparr>net = (\<lambda>k url. if k = 0 then Answer 200 (example_page (0 # [2..<115])) None
                      else Answer 200 ''audio'' None),
      manifest = Returned three_surahs, int_str = no_int\<rparr>"

definition env_third_fails :: env where
  "env_third_fails =
     \<lparr>net = (\<lambda>k url. if k = 0 then Answer 200 (example_page [1..<115]) None
                      else if k = 1 then Answer 200 ''audio'' None
                      else if k \<le> 4 then Refused (Exn URLError ''unreachable'')
                      else Answer 200 ''audio'' None),
      manifest = Returned three_surahs, int_str = no_int\<rparr>"

lemma example_link_values:
  "example_link 1 = ''https://h/001.mp3''" "example_link 2 = ''https://h/002.mp3''"
  "example_link (Suc 0) = ''https://h/001.mp3''"
  by code_simp+


theorem main_first_failure_aborts_witness:
  "fst (main env_no_url w0) = Returned 1
   \<and> requests (snd (main env_no_url w0)) = [RECITER_PAGE, ''https://h/002.mp3'']
   \<and> stderr (snd (main env_no_url w0)) = [''No download URL discovered for surah 001; skipping.'']
   \<and> files (snd (main env_no_url w0)) (path_join AUDIO_DIR ''002.mp3'') = Some ''audio''
   \<and> fst (main env_third_fails w0) = Returned 1
   \<and> requests (snd (main env_third_fails w0))
       = [RECITER_PAGE, ''https://h/002.mp3'', ''https://h/001.mp3'', ''https://h/001.mp3'',
          ''https://h/001.mp3'']"
proof -
  let ?s2 = "\<lparr>number = 2, filename = JStr ''002.mp3''\<rparr>"
  let ?s1 = "\<lparr>number = 1, filename = JStr ''001.mp3''\<rparr>"
  let ?s3 = "\<lparr>number = 3, filename = JStr ''003.mp3''\<rparr>"
  let ?ms = "[?s2] @ ?s1 # [?s3]"
  let ?w1 = "w0\<lparr>requests := requests w0 @ [RECITER_PAGE]\<rparr>"
  let ?w2 = "print_out (downloading_message (length ?ms)) ?w1"
  let ?d2 = "path_join AUDIO_DIR ''002.mp3''"
  let ?w2' = "print_out (progress_message 1 (length ?ms) ''002.mp3'' (example_link 2)) ?w2"
  let ?w3 = "write_file ?d2 ''audio''
               (write_file ?d2 [] (?w2'\<lparr>requests := requests ?w2' @ [example_link 2]\<rparr>))"
  have miss: "missing_entries ?w1 [?s2, ?s1, ?s3] = Returned ?ms"
    by (simp add: path_exists_def w0_def)
  have fmt: "fmt_03d 1 = ''001''" by code_simp

  \<comment> \<open>the page has no link for surah 1\<close>
  let ?ksA = "0 # [2..<115]"
  let ?umA = "map (\<lambda>k. (int k, example_link k)) ?ksA"
  have loadA: "load_surahs env_no_url = Returned [?s2, ?s1, ?s3]"
    by (rule load_three_surahs) (simp add: env_no_url_def)
  have discA: "discover_urls (net env_no_url) w0 = (Returned ?umA, ?w1)"
    by (rule discover_urls_example [where st = 200]) (simp_all add: env_no_url_def w0_def)
  have "(2::nat) \<in> set ?ksA" by simp
  from map_of_example_links [OF this] have u2A: "map_of ?umA 2 = Some (example_link 2)"
    by simp
  have "(1::int) \<notin> fst ` set ?umA" by auto
  then have noneA: "map_of ?umA 1 = None"
    by (rule map_of_eq_None_iff [THEN iffD2])
  have "net env_no_url (length (requests ?w2')) (example_link 2) = Answer 200 ''audio'' None"
    by (simp add: env_no_url_def print_out_def w0_def)
  from download_file_first_try [where srv = "net env_no_url" and w = ?w2'
      and url = "example_link 2" and d = ?d2, OF Request_example_link this]
  have dlA: "download_file (net env_no_url) (example_link 2) ?d2 ?w2' = (Returned (), ?w3)" .
  have preA: "download_missing (net env_no_url) ?umA (length ?ms) 1 [?s2] ?w2
                = (Returned None, ?w3)"
    using u2A dlA by (simp add: Let_def)
  note tA = main_first_failure_aborts [where ev = env_no_url and w = w0
      and surahs = "[?s2, ?s1, ?s3]" and url_map = ?umA and ?w1.0 = ?w1 and pre = "[?s2]"
      and entry = ?s1 and post = "[?s3]" and ?w3.0 = ?w3, OF loadA discA miss preA]
  from noneA have "map_of ?umA (number ?s1) = None" by simp
  from tA [THEN conjunct2, THEN conjunct2, THEN conjunct1, rule_format, OF this]
  have mA: "main env_no_url w0 = (Returned 1, print_err (no_url_message (number ?s1)) ?w3)" .
  have a1: "fst (main env_no_url w0) = Returned 1"
    by (simp add: mA)
  have a2: "requests (snd (main env_no_url w0)) = [RECITER_PAGE, ''https://h/002.mp3'']"
    unfolding mA
    by (simp add: print_err_def write_file_def print_out_def w0_def example_link_values)
  have a3: "stderr (snd (main env_no_url w0))
              = [''No download URL discovered for surah 001; skipping.'']"
    unfolding mA
    by (simp add: print_err_def write_file_def print_out_def w0_def no_url_message_def fmt)
  have a4: "files (snd (main env_no_url w0)) ?d2 = Some ''audio''"
    by (simp add: mA print_err_def write_file_def)

  \<comment> \<open>the three attempts for surah 1 fail\<close>
  let ?ksB = "[1..<115]"
  let ?umB = "map (\<lambda>k. (int k, example_link k)) ?ksB"
  have loadB: "load_surahs env_third_fails = Returned [?s2, ?s1, ?s3]"
    by (rule load_three_surahs) (simp add: env_third_fails_def)
  have discB: "discover_urls (net env_third_fails) w0 = (Returned ?umB, ?w1)"
    by (rule discover_urls_example [where st = 200]) (simp_all add: env_third_fails_def w0_def)
  have "(2::nat) \<in> set ?ksB" by simp
  from map_of_example_links [OF this] have u2B: "map_of ?umB 2 = Some (example_link 2)"
    by simp
  have "(1::nat) \<in> set ?ksB" by simp
  from map_of_example_links [OF this] have u1B: "map_of ?umB 1 = Some (example_link 1)"
    by simp
  have "net env_third_fails (length (requests ?w2')) (example_link 2) = Answer 200 ''audio'' None"
    by (simp add: env_third_fails_def print_out_def w0_def)
  from download_file_first_try [where srv = "net env_third_fails" and w = ?w2'
      and url = "example_link 2" and d = ?d2, OF Request_example_link this]
  have dlB: "download_file (net env_third_fails) (example_link 2) ?d2 ?w2' = (Returned (), ?w3)" .
  have preB: "download_missing (net env_third_fails) ?umB (length ?ms) 1 [?s2] ?w2
                = (Returned None, ?w3)"
    using u2B dlB by (simp add: Let_def)
  note tB = main_first_failure_aborts [where ev = env_third_fails and w = w0
      and surahs = "[?s2, ?s1, ?s3]" and url_map = ?umB and ?w1.0 = ?w1 and pre = "[?s2]"
      and entry = ?s1 and post = "[?s3]" and ?w3.0 = ?w3, OF loadB discB miss preB]
  have hB: "map_of ?umB (number ?s1) = Some (example_link 1) \<and> filename ?s1 = JStr ''001.mp3''
      \<and> reply_fails (net env_third_fails (length (requests ?w3)) (example_link 1))
      \<and> reply_fails (net env_third_fails (length (requests ?w3) + 1) (example_link 1))
      \<and> reply_fails (net env_third_fails (length (requests ?w3) + 2) (example_link 1))"
    using u1B
    by (simp add: write_file_def print_out_def w0_def env_third_fails_def reply_fails_def)
  from tB [THEN conjunct2, THEN conjunct2, THEN conjunct2, rule_format, OF hB]
  obtain exc w4 where mB: "main env_third_fails w0 =
      (Returned 1,
       print_err (download_error_message ''001.mp3''
          (Exn RuntimeError (''Failed to download '' @ example_link 1 @ '': '' @ msg exc))) w4)"
    and r4: "requests w4 = requests ?w3 @ [example_link 1, example_link 1, example_link 1]"
    by blast
  have b1: "fst (main env_third_fails w0) = Returned 1"
    by (simp add: mB)
  have b2: "requests (snd (main env_third_fails w0))
       = [RECITER_PAGE, ''https://h/002.mp3'', ''https://h/001.mp3'', ''https://h/001.mp3'',
          ''https://h/001.mp3'']"
    unfolding mB
    by (simp add: print_err_def r4 write_file_def print_out_def w0_def example_link_values)
  from a1 a2 a3 a4 b1 b2 show ?thesis by blast
qed

lemma is_missing_files: "files w = files w' \<Longrightarrow> is_missing w e = is_missing w' e"
  by (simp add: is_missing_def path_exists_def split: result.splits)

lemma download_missing_code:
  "download_missing srv um t i ms w = (Returned (Some c), w') \<Longrightarrow> c = 1"
proof (induction ms arbitrary: i w)
  case Nil
  then show ?case by simp
next
  case (Cons entry ms)
  show ?case
  proof (cases "map_of um (number entry)")
    case None
    with Cons.prems show ?thesis by simp
  next
    case (Some url)
    show ?thesis
    proof (cases "filename entry")
      case (JStr f)
      obtain r2 w2 where d: "download_file srv url (path_join AUDIO_DIR f)
                               (print_out (progress_message i t f url) w) = (r2, w2)"
        by (cases "download_file srv url (path_join AUDIO_DIR f)
                     (print_out (progress_message i t f url) w)")
      show ?thesis
      proof (cases r2)
        case (Returned u)
        with Some JStr d Cons.prems
        have "download_missing srv um t (i + 1) ms w2 = (Returned (Some c), w')"
          by (simp add: Let_def)
        from Cons.IH [OF this] show ?thesis .
      next
        case (Raised exc)
        with Some JStr d Cons.prems show ?thesis
          by (auto simp: Let_def split: if_splits)
      qed
    qed (use Some Cons.prems in auto)
  qed
qed

lemma main_frame:
  assumes load: "load_surahs ev = Returned surahs"
  shows "\<exists>ds. requests (snd (main ev w)) = requests w @ RECITER_PAGE # ds
           \<and> (\<forall>u \<in> set ds. \<exists>um e. fst (discover_urls (net ev) w) = Returned um
                  \<and> e \<in> set surahs \<and> is_missing w e \<and> map_of um (number e) = Some u)"
    and "(\<forall>e \<in> set surahs. is_missing w e \<longrightarrow> dest_path (filename e) \<noteq> Returned p)
           \<Longrightarrow> files (snd (main ev w)) p = files w p"
proof -
  obtain r w1 where d: "discover_urls (net ev) w = (r, w1)"
    by (cases "discover_urls (net ev) w")
  from discover_urls_world [of "net ev" w] d
  have w1: "w1 = w\<lparr>requests := requests w @ [RECITER_PAGE]\<rparr>" by simp
  then have fw1: "files w1 = files w" and rw1: "requests w1 = requests w @ [RECITER_PAGE]"
    by simp_all
  have "(\<exists>ds. requests (snd (main ev w)) = requests w @ RECITER_PAGE # ds
           \<and> (\<forall>u \<in> set ds. \<exists>um e. fst (discover_urls (net ev) w) = Returned um
                  \<and> e \<in> set surahs \<and> is_missing w e \<and> map_of um (number e) = Some u))
        \<and> ((\<forall>e \<in> set surahs. is_missing w e \<longrightarrow> dest_path (filename e) \<noteq> Returned p)
           \<longrightarrow> files (snd (main ev w)) p = files w p)"
  proof (cases r)
    case (Raised exc)
    with load d rw1 fw1 show ?thesis
      by (simp add: main_def print_err_def)
  next
    case (Returned um)
    show ?thesis
    proof (cases "missing_entries w1 surahs")
      case (Raised e)
      with load d Returned rw1 fw1 show ?thesis
        by (simp add: main_def)
    next
      case ms: (Returned ms)
      from missing_entries_filter [OF ms]
      have msf: "ms = filter (is_missing w1) surahs" by blast
      have sub: "\<And>e. e \<in> set ms \<Longrightarrow> e \<in> set surahs \<and> is_missing w e"
        using msf is_missing_files [OF fw1] by auto
      show ?thesis
      proof (cases "ms = []")
        case True
        with load d Returned ms rw1 fw1 show ?thesis
          by (simp add: main_def print_out_def)
      next
        case False
        let ?w2 = "print_out (downloading_message (length ms)) w1"
        obtain r3 w3 where l: "download_missing (net ev) um (length ms) 1 ms ?w2 = (r3, w3)"
          by (cases "download_missing (net ev) um (length ms) 1 ms ?w2")
        from download_missing_frame [OF l] obtain ds where
          ds: "requests w3 = requests ?w2 @ ds"
            "set ds \<subseteq> {u. \<exists>e \<in> set ms. map_of um (number e) = Some u}"
          and fr: "\<forall>p. (\<forall>e \<in> set ms. \<forall>f. filename e = JStr f \<longrightarrow> p \<noteq> path_join AUDIO_DIR f)
                     \<longrightarrow> files w3 p = files ?w2 p"
          by blast
        have m: "main ev w =
           (case (r3, w3) of
              (Returned None, w3) \<Rightarrow>
                (Returned 0, print_out ''Download completed successfully.'' w3)
            | (Returned (Some code), w3) \<Rightarrow> (Returned code, w3)
            | (Raised e, w3) \<Rightarrow> (Raised e, w3))"
          using main_enters_loop [OF load d [unfolded Returned] ms False] l by simp
        have rq: "requests (snd (main ev w)) = requests w3"
          and fl: "files (snd (main ev w)) = files w3"
          unfolding m by (auto simp: print_out_def split: result.splits option.splits)
        have a: "requests (snd (main ev w)) = requests w @ RECITER_PAGE # ds"
          using rq ds(1) rw1 by (simp add: print_out_def)
        have b: "\<forall>u \<in> set ds. \<exists>um e. fst (discover_urls (net ev) w) = Returned um
                  \<and> e \<in> set surahs \<and> is_missing w e \<and> map_of um (number e) = Some u"
        proof
          fix u assume "u \<in> set ds"
          with ds(2) obtain e where "e \<in> set ms" "map_of um (number e) = Some u" by auto
          with sub [of e] d Returned
          show "\<exists>um e. fst (discover_urls (net ev) w) = Returned um
                  \<and> e \<in> set surahs \<and> is_missing w e \<and> map_of um (number e) = Some u"
            by auto
        qed
        have c: "(\<forall>e \<in> set surahs. is_missing w e \<longrightarrow> dest_path (filename e) \<noteq> Returned p)
           \<longrightarrow> files (snd (main ev w)) p = files w p"
        proof
          assume h: "\<forall>e \<in> set surahs. is_missing w e \<longrightarrow> dest_path (filename e) \<noteq> Returned p"
          have "\<forall>e \<in> set ms. \<forall>f. filename e = JStr f \<longrightarrow> p \<noteq> path_join AUDIO_DIR f"
          proof (intro ballI allI impI)
            fix e f assume e: "e \<in> set ms" and f: "filename e = JStr f"
            from sub [OF e] h have "dest_path (filename e) \<noteq> Returned p" by blast
            with f show "p \<noteq> path_join AUDIO_DIR f" by auto
          qed
          with fr have "files w3 p = files ?w2 p" by blast
          with fl fw1 show "files (snd (main ev w)) p = files w p"
            by (simp add: print_out_def)
        qed
        from a b c show ?thesis by blast
      qed
    qed
  qed
  then show "\<exists>ds. requests (snd (main ev w)) = requests w @ RECITER_PAGE # ds
           \<and> (\<forall>u \<in> set ds. \<exists>um e. fst (discover_urls (net ev) w) = Returned um
                  \<and> e \<in> set surahs \<and> is_missing w e \<and> map_of um (number e) = Some u)"
    and "(\<forall>e \<in> set surahs. is_missing w e \<longrightarrow> dest_path (filename e) \<noteq> Returned p)
           \<Longrightarrow> files (snd (main ev w)) p = files w p"
    by blast+
qed


text \<open>
  C6. For a manifest entry whose destination exists before the run: the requests of the
  run are the one for the reciter page and then only requests for URLs of entries that
  were missing at the start; with the numbers of the manifest distinct, the URL that
  discovery found for this entry is not among them; and the file of the entry is left as
  it was.
\<close>

theorem present_entry_not_requested:
  assumes load: "load_surahs ev = Returned surahs"
    and entry: "entry \<in> set surahs" and fname: "filename entry = JStr f"
    and present: "path_exists (path_join AUDIO_DIR f) w"
  shows "\<exists>ds. requests (snd (main ev w)) = requests w @ RECITER_PAGE # ds
           \<and> (\<forall>u \<in> set ds. \<exists>um e. fst (discover_urls (net ev) w) = Returned um
                  \<and> e \<in> set surahs \<and> is_missing w e \<and> map_of um (number e) = Some u)
           \<and> (distinct (map number surahs) \<longrightarrow>
                (\<forall>um u. fst (discover_urls (net ev) w) = Returned um
                   \<and> map_of um (number entry) = Some u \<longrightarrow> u \<notin> set ds))
           \<and> files (snd (main ev w)) (path_join AUDIO_DIR f) = files w (path_join AUDIO_DIR f)"
proof -
  from main_frame(1) [OF load, of w] obtain ds where
    rq: "requests (snd (main ev w)) = requests w @ RECITER_PAGE # ds"
    and src: "\<forall>u \<in> set ds. \<exists>um e. fst (discover_urls (net ev) w) = Returned um
                  \<and> e \<in> set surahs \<and> is_missing w e \<and> map_of um (number e) = Some u"
    by blast
  have nm: "\<not> is_missing w entry"
    using fname present by (simp add: is_missing_def)
  have uniq: "distinct (map number surahs) \<longrightarrow>
                (\<forall>um u. fst (discover_urls (net ev) w) = Returned um
                   \<and> map_of um (number entry) = Some u \<longrightarrow> u \<notin> set ds)"
  proof (intro impI allI notI)
    fix um u
    assume dist: "distinct (map number surahs)"
      and a: "fst (discover_urls (net ev) w) = Returned um \<and> map_of um (number entry) = Some u"
      and u: "u \<in> set ds"
    from src u a obtain e where e: "e \<in> set surahs" "is_missing w e"
      and eu: "map_of um (number e) = Some u"
      by force
    from a have "discover_urls (net ev) w = (Returned um, snd (discover_urls (net ev) w))"
      by (cases "discover_urls (net ev) w") simp
    from discover_urls_Returned [OF this] obtain body where "um = extract_urls body" by blast
    with a eu have "number e = number entry"
      by (auto intro: extract_urls_key_of_url)
    with dist e(1) entry have "e = entry"
      by (auto simp: distinct_map dest: inj_onD)
    with e(2) nm show False by simp
  qed
  have "\<forall>e \<in> set surahs. is_missing w e \<longrightarrow> dest_path (filename e) \<noteq> Returned (path_join AUDIO_DIR f)"
    using present by (auto simp: is_missing_def)
  from main_frame(2) [OF load this]
  have fl: "files (snd (main ev w)) (path_join AUDIO_DIR f) = files w (path_join AUDIO_DIR f)" .
  from rq src uniq fl show ?thesis by blast
qed

text \<open>
  The witness: surahs 2, 1 and 3 in the manifest, the file of surah 2 present, the page
  complete and every download answered.
\<close>

definition env_online :: env where
  "env_online =
     \<lparr>net = (\<lambda>k url. if url = RECITER_PAGE then Answer 200 (example_page [1..<115]) None
                      else Answer 200 ''audio'' None),
      manifest = Returned three_surahs, int_str = no_int\<rparr>"

definition w_have_002 :: world where
  "w_have_002 = write_file (path_join AUDIO_DIR ''002.mp3'') ''old'' w0"

theorem present_entry_not_requested_witness:
  "load_surahs env_online = Returned [\<lparr>number = 2, filename = JStr ''002.mp3''\<rparr>,
                                      \<lparr>number = 1, filename = JStr ''001.mp3''\<rparr>,
                                      \<lparr>number = 3, filename = JStr ''003.mp3''\<rparr>]
   \<and> path_exists (path_join AUDIO_DIR ''002.mp3'') w_have_002
   \<and> (\<exists>ds. requests (snd (main env_online w_have_002))
               = requests w_have_002 @ RECITER_PAGE # ds
            \<and> ''https://h/002.mp3'' \<notin> set ds)
   \<and> files (snd (main env_online w_have_002)) (path_join AUDIO_DIR ''002.mp3'') = Some ''old''"
proof -
  let ?s2 = "\<lparr>number = 2, filename = JStr ''002.mp3''\<rparr>"
  let ?s1 = "\<lparr>number = 1, filename = JStr ''001.mp3''\<rparr>"
  let ?s3 = "\<lparr>number = 3, filename = JStr ''003.mp3''\<rparr>"
  let ?um = "map (\<lambda>k. (int k, example_link k)) [1..<115]"
  have load: "load_surahs env_online = Returned [?s2, ?s1, ?s3]"
    by (rule load_three_surahs) (simp add: env_online_def)
  have mem: "?s2 \<in> set [?s2, ?s1, ?s3]" by simp
  have fname: "filename ?s2 = JStr ''002.mp3''" by simp
  have present: "path_exists (path_join AUDIO_DIR ''002.mp3'') w_have_002"
    by (simp add: w_have_002_def write_file_def path_exists_def)
  have dist: "distinct (map number [?s2, ?s1, ?s3])" by simp
  have disc: "discover_urls (net env_online) w_have_002
                = (Returned ?um, w_have_002\<lparr>requests := requests w_have_002 @ [RECITER_PAGE]\<rparr>)"
    by (rule discover_urls_example [where st = 200]) (simp_all add: env_online_def)
  have "(2::nat) \<in> set [1..<115]" by simp
  from map_of_example_links [OF this] have u2: "map_of ?um (number ?s2) = Some ''https://h/002.mp3''"
    by (simp add: example_link_values)
  from present_entry_not_requested [OF load mem fname present] obtain ds where
    rq: "requests (snd (main env_online w_have_002)) = requests w_have_002 @ RECITER_PAGE # ds"
    and uniq: "distinct (map number [?s2, ?s1, ?s3]) \<longrightarrow>
                (\<forall>um u. fst (discover_urls (net env_online) w_have_002) = Returned um
                   \<and> map_of um (number ?s2) = Some u \<longrightarrow> u \<notin> set ds)"
    and fl: "files (snd (main env_online w_have_002)) (path_join AUDIO_DIR ''002.mp3'')
               = files w_have_002 (path_join AUDIO_DIR ''002.mp3'')"
    by blast
  from uniq [rule_format, OF dist, of ?um "''https://h/002.mp3''"] disc u2
  have "''https://h/002.mp3'' \<notin> set ds" by simp
  with rq have c1: "\<exists>ds. requests (snd (main env_online w_have_002))
               = requests w_have_002 @ RECITER_PAGE # ds
            \<and> ''https://h/002.mp3'' \<notin> set ds"
    by blast
  from fl have c2: "files (snd (main env_online w_have_002)) (path_join AUDIO_DIR ''002.mp3'')
                      = Some ''old''"
    by (simp add: w_have_002_def write_file_def)
  from load present c1 c2 show ?thesis by blast
qed

lemma main_success_all_present:
  assumes "main ev w = (Returned 0, w')"
  shows "\<exists>surahs. load_surahs ev = Returned surahs
           \<and> (\<forall>e \<in> set surahs. \<exists>f. filename e = JStr f \<and> path_exists (path_join AUDIO_DIR f) w')"
proof -
  from assms obtain surahs where load: "load_surahs ev = Returned surahs"
    by (cases "load_surahs ev") (auto simp: main_def)
  obtain r w1 where d: "discover_urls (net ev) w = (r, w1)"
    by (cases "discover_urls (net ev) w")
  from assms load d obtain um where um: "r = Returned um"
    by (cases r) (auto simp: main_def)
  from assms load d um obtain ms where ms: "missing_entries w1 surahs = Returned ms"
    by (cases "missing_entries w1 surahs") (auto simp: main_def)
  from missing_entries_filter [OF ms]
  have msf: "ms = filter (is_missing w1) surahs"
    and str: "\<forall>e \<in> set surahs. \<exists>f. filename e = JStr f"
    by blast+
  have "\<forall>e \<in> set surahs. \<exists>f. filename e = JStr f \<and> path_exists (path_join AUDIO_DIR f) w'"
  proof (cases "ms = []")
    case True
    with assms load d um ms
    have w': "w' = print_out ''All surah files already present. Nothing to download.'' w1"
      by (simp add: main_def)
    show ?thesis
    proof
      fix e assume e: "e \<in> set surahs"
      with str obtain f where f: "filename e = JStr f" by blast
      from True msf e have "\<not> is_missing w1 e" by (auto simp: filter_empty_conv)
      with f have "path_exists (path_join AUDIO_DIR f) w1" by (simp add: is_missing_def)
      with f w' show "\<exists>f. filename e = JStr f \<and> path_exists (path_join AUDIO_DIR f) w'"
        by (simp add: path_exists_def print_out_def)
    qed
  next
    case False
    let ?w2 = "print_out (downloading_message (length ms)) w1"
    obtain r3 w3 where l: "download_missing (net ev) um (length ms) 1 ms ?w2 = (r3, w3)"
      by (cases "download_missing (net ev) um (length ms) 1 ms ?w2")
    have m: "main ev w =
           (case (r3, w3) of
              (Returned None, w3) \<Rightarrow>
                (Returned 0, print_out ''Download completed successfully.'' w3)
            | (Returned (Some code), w3) \<Rightarrow> (Returned code, w3)
            | (Raised e, w3) \<Rightarrow> (Raised e, w3))"
      using main_enters_loop [OF load d [unfolded um] ms False] l by simp
    have r3: "r3 = Returned None"
    proof (cases r3)
      case (Raised e)
      with m assms show ?thesis by simp
    next
      case (Returned c)
      show ?thesis
      proof (cases c)
        case None
        with Returned show ?thesis by simp
      next
        case (Some code)
        with Returned l have "code = 1" by (auto dest: download_missing_code)
        with Some Returned m assms show ?thesis by simp
      qed
    qed
    with m assms have w': "w' = print_out ''Download completed successfully.'' w3" by simp
    from download_missing_done [OF l [unfolded r3]]
    have got: "\<forall>e \<in> set ms. \<exists>f. filename e = JStr f \<and> path_exists (path_join AUDIO_DIR f) w3"
      and keep: "\<forall>p. path_exists p ?w2 \<longrightarrow> path_exists p w3"
      by blast+
    show ?thesis
    proof
      fix e assume e: "e \<in> set surahs"
      with str obtain f where f: "filename e = JStr f" by blast
      have "path_exists (path_join AUDIO_DIR f) w3"
      proof (cases "is_missing w1 e")
        case True
        with e msf have "e \<in> set ms" by simp
        with got f show ?thesis by auto
      next
        case False
        with f have "path_exists (path_join AUDIO_DIR f) w1" by (simp add: is_missing_def)
        then have "path_exists (path_join AUDIO_DIR f) ?w2"
          by (simp add: path_exists_def print_out_def)
        with keep show ?thesis by blast
      qed
      with f w' show "\<exists>f. filename e = JStr f \<and> path_exists (path_join AUDIO_DIR f) w'"
        by (simp add: path_exists_def print_out_def)
    qed
  qed
  with load show ?thesis by blast
qed

text \<open>
  C5, as amended. After a run that returned 0, with no file removed since, the next run
  makes no download attempt: its only request is the one for the reciter page. It prints
  the no-op message and returns 0 when its own discovery succeeds; when its discovery
  fails it returns 1, although every file is present.
\<close>

theorem second_run_downloads_nothing:
  assumes run1: "main ev w = (Returned 0, w1)"
    and kept: "\<forall>p. path_exists p w1 \<longrightarrow> path_exists p w2"
  shows "requests (snd (main ev w2)) = requests w2 @ [RECITER_PAGE]
    \<and> (\<forall>um. fst (discover_urls (net ev) w2) = Returned um \<longrightarrow>
          main ev w2 =
            (Returned 0,
             print_out ''All surah files already present. Nothing to download.''
               (w2\<lparr>requests := requests w2 @ [RECITER_PAGE]\<rparr>)))
    \<and> (\<forall>exc. fst (discover_urls (net ev) w2) = Raised exc \<longrightarrow> fst (main ev w2) = Returned 1)"
proof -
  from main_success_all_present [OF run1] obtain surahs
    where load: "load_surahs ev = Returned surahs"
      and all: "\<forall>e \<in> set surahs. \<exists>f. filename e = JStr f \<and> path_exists (path_join AUDIO_DIR f) w1"
    by blast
  let ?w3 = "w2\<lparr>requests := requests w2 @ [RECITER_PAGE]\<rparr>"
  obtain r where d: "discover_urls (net ev) w2 = (r, ?w3)"
    using discover_urls_world [of "net ev" w2] by (cases "discover_urls (net ev) w2") simp
  have "\<forall>e \<in> set surahs. \<exists>f. filename e = JStr f \<and> path_exists (path_join AUDIO_DIR f) ?w3"
    using all kept by (auto simp: path_exists_def)
  from missing_entries_all_present [OF this]
  have none: "missing_entries ?w3 surahs = Returned []" .
  have ok: "\<forall>um. fst (discover_urls (net ev) w2) = Returned um \<longrightarrow>
          main ev w2 =
            (Returned 0,
             print_out ''All surah files already present. Nothing to download.'' ?w3)"
    using load d none by (simp add: main_def)
  have bad: "\<forall>exc. fst (discover_urls (net ev) w2) = Raised exc \<longrightarrow> fst (main ev w2) = Returned 1"
    using load d by (simp add: main_def)
  have rq: "requests (snd (main ev w2)) = requests w2 @ [RECITER_PAGE]"
  proof (cases r)
    case (Raised exc)
    with load d show ?thesis by (simp add: main_def print_err_def)
  next
    case (Returned um)
    with load d none show ?thesis by (simp add: main_def print_out_def)
  qed
  from rq ok bad show ?thesis by blast
qed


text \<open>
  A first run that downloads the one missing surah, and the world it leaves. Against
  C5 as stated: the network goes down after the first run, and the second run, with the
  file present and nothing removed, returns 1.
\<close>

definition after_first_run :: world where
  "after_first_run =
     print_out ''Download completed successfully.''
       (write_file (path_join AUDIO_DIR ''001.mp3'') ''audio''
          (write_file (path_join AUDIO_DIR ''001.mp3'') []
             (print_out (progress_message 1 1 ''001.mp3'' (example_link 1))
                (print_out (downloading_message 1)
                   (w0\<lparr>requests := requests w0 @ [RECITER_PAGE]\<rparr>))
              \<lparr>requests := [RECITER_PAGE, example_link 1]\<rparr>)))"

lemma first_run_one_surah:
  assumes man: "manifest ev = Returned one_surah"
    and page: "net ev 0 RECITER_PAGE = Answer 200 (example_page [1..<115]) None"
    and audio: "net ev 1 (example_link 1) = Answer 200 ''audio'' None"
  shows "main ev w0 = (Returned 0, after_first_run)"
proof -
  let ?s1 = "\<lparr>number = 1, filename = JStr ''001.mp3''\<rparr>"
  let ?um = "map (\<lambda>k. (int k, example_link k)) [1..<115]"
  let ?w1 = "w0\<lparr>requests := requests w0 @ [RECITER_PAGE]\<rparr>"
  let ?w2 = "print_out (downloading_message (length [?s1])) ?w1"
  let ?d = "path_join AUDIO_DIR ''001.mp3''"
  let ?w2' = "print_out (progress_message 1 (length [?s1]) ''001.mp3'' (example_link 1)) ?w2"
  let ?w3 = "write_file ?d ''audio''
               (write_file ?d [] (?w2'\<lparr>requests := requests ?w2' @ [example_link 1]\<rparr>))"
  have load: "load_surahs ev = Returned [?s1]"
    by (rule load_one_surah) (rule man)
  have "net ev (length (requests w0)) RECITER_PAGE = Answer 200 (example_page [1..<115]) None"
    using page by (simp add: w0_def)
  then have disc: "discover_urls (net ev) w0 = (Returned ?um, ?w1)"
    by (rule discover_urls_example) simp_all
  have miss: "missing_entries ?w1 [?s1] = Returned [?s1]"
    by (simp add: path_exists_def w0_def)
  have "(1::nat) \<in> set [1..<115]" by simp
  from map_of_example_links [OF this] have u1: "map_of ?um 1 = Some (example_link 1)"
    by simp
  have "net ev (length (requests ?w2')) (example_link 1) = Answer 200 ''audio'' None"
    using audio by (simp add: print_out_def w0_def)
  from download_file_first_try [where srv = "net ev" and w = ?w2'
      and url = "example_link 1" and d = ?d, OF Request_example_link this]
  have dl: "download_file (net ev) (example_link 1) ?d ?w2' = (Returned (), ?w3)" .
  have lp: "download_missing (net ev) ?um (length [?s1]) 1 [?s1] ?w2 = (Returned None, ?w3)"
    using u1 dl by (simp add: Let_def)
  have ne: "[?s1] \<noteq> []" by simp
  have "main ev w0 = (Returned 0, print_out ''Download completed successfully.'' ?w3)"
    by (simp only: main_enters_loop [OF load disc miss ne] lp) simp
  also have "print_out ''Download completed successfully.'' ?w3 = after_first_run"
    by (simp add: after_first_run_def print_out_def w0_def)
  finally show ?thesis .
qed

definition env_then_offline :: env where
  "env_then_offline =
     \<lparr>net = (\<lambda>k url. if k = 0 then Answer 200 (example_page [1..<115]) None
                      else if k = 1 then Answer 200 ''audio'' None
                      else Refused (Exn URLError ''unreachable'')),
      manifest = Returned one_surah, int_str = no_int\<rparr>"

definition env_online_one :: env where
  "env_online_one =
     \<lparr>net = (\<lambda>k url. if url = RECITER_PAGE then Answer 200 (example_page [1..<115]) None
                      else Answer 200 ''audio'' None),
      manifest = Returned one_surah, int_str = no_int\<rparr>"

theorem second_run_exit_code_counterexample:
  "main env_then_offline w0 = (Returned 0, after_first_run)
   \<and> files after_first_run (path_join AUDIO_DIR ''001.mp3'') = Some ''audio''
   \<and> fst (main env_then_offline after_first_run) = Returned 1
   \<and> requests (snd (main env_then_offline after_first_run))
       = [RECITER_PAGE, ''https://h/001.mp3'', RECITER_PAGE]"
proof -
  have m1: "main env_then_offline w0 = (Returned 0, after_first_run)"
    by (rule first_run_one_surah) (simp_all add: env_then_offline_def)
  have fl: "files after_first_run (path_join AUDIO_DIR ''001.mp3'') = Some ''audio''"
    by (simp add: after_first_run_def print_out_def write_file_def)
  have load: "load_surahs env_then_offline = Returned [\<lparr>number = 1, filename = JStr ''001.mp3''\<rparr>]"
    by (rule load_one_surah) (simp add: env_then_offline_def)
  have disc: "discover_urls (net env_then_offline) after_first_run
      = (Raised (Exn URLError ''unreachable''),
         after_first_run\<lparr>requests := requests after_first_run @ [RECITER_PAGE]\<rparr>)"
    by (simp add: discover_urls_unfold urlopen_def env_then_offline_def after_first_run_def
        print_out_def write_file_def)
  have m2: "main env_then_offline after_first_run
      = (Returned 1,
         print_err (''Unable to discover MP3 URLs: '' @ msg (Exn URLError ''unreachable''))
           (after_first_run\<lparr>requests := requests after_first_run @ [RECITER_PAGE]\<rparr>))"
    unfolding main_def load disc by simp
  have c3: "fst (main env_then_offline after_first_run) = Returned 1"
    unfolding m2 by simp
  have c4: "requests (snd (main env_then_offline after_first_run))
       = [RECITER_PAGE, ''https://h/001.mp3'', RECITER_PAGE]"
    unfolding m2
    by (simp add: print_err_def after_first_run_def print_out_def write_file_def
        example_link_values)
  from m1 fl c3 c4 show ?thesis by blast
qed

theorem second_run_downloads_nothing_witness:
  "main env_online_one w0 = (Returned 0, after_first_run)
   \<and> fst (discover_urls (net env_online_one) after_first_run)
       = Returned (map (\<lambda>k. (int k, example_link k)) [1..<115])
   \<and> requests (snd (main env_online_one after_first_run))
       = requests after_first_run @ [RECITER_PAGE]
   \<and> main env_online_one after_first_run =
        (Returned 0,
         print_out ''All surah files already present. Nothing to download.''
           (after_first_run\<lparr>requests := requests after_first_run @ [RECITER_PAGE]\<rparr>))"
proof -
  have m1: "main env_online_one w0 = (Returned 0, after_first_run)"
    by (rule first_run_one_surah) (simp_all add: env_online_one_def RECITER_PAGE_def example_link_values)
  have kept: "\<forall>p. path_exists p after_first_run \<longrightarrow> path_exists p after_first_run"
    by simp
  have "discover_urls (net env_online_one) after_first_run
      = (Returned (map (\<lambda>k. (int k, example_link k)) [1..<115]),
         after_first_run\<lparr>requests := requests after_first_run @ [RECITER_PAGE]\<rparr>)"
    by (rule discover_urls_example [where st = 200]) (simp_all add: env_online_one_def)
  then have disc: "fst (discover_urls (net env_online_one) after_first_run)
       = Returned (map (\<lambda>k. (int k, example_link k)) [1..<115])"
    by simp
  note t = second_run_downloads_nothing [OF m1 kept]
  from t have c1: "requests (snd (main env_online_one after_first_run))
       = requests after_first_run @ [RECITER_PAGE]"
    by blast
  from t [THEN conjunct2, THEN conjunct1, rule_format, OF disc]
  have c2: "main env_online_one after_first_run =
        (Returned 0,
         print_out ''All surah files already present. Nothing to download.''
           (after_first_run\<lparr>requests := requests after_first_run @ [RECITER_PAGE]\<rparr>))" .
  from m1 disc c1 c2 show ?thesis by blast
qed

end
